theory Spec2Isabelle
  imports Complex_Main "HOL-Library.Log_Nat"
begin

section \<open>Python values used by \<open>wrapper.py\<close>\<close>

text \<open>
  The exceptions the modelled code can raise.  \<open>OverflowError\<close> is raised when an
  integer is too large to become a float and when \<open>int()\<close> is applied to an infinity,
  \<open>ValueError\<close> when \<open>int()\<close> is applied to a NaN, when a tuple unpacking has the
  wrong number of values and when \<open>np.transpose\<close> is given axes that do not match,
  \<open>ZeroDivisionError\<close> by \<open>%\<close> and \<open>/\<close> with a zero divisor.  \<open>LibraryError\<close>
  stands for every exception raised inside OpenCV, PyTorch or torchvision.
\<close>

datatype pyerror = ZeroDivisionError | OverflowError | ValueError | LibraryError

subsection \<open>Binary64 floating point\<close>

text \<open>
  A Python \<open>float\<close> is an IEEE 754 binary64 number.  A finite float is modelled by the
  rational number it denotes; the two zeros are identified (the program never divides
  by a float zero that it computed, and \<open>int(-0.0)\<close> is \<open>0\<close>, so the sign of a zero is
  not observable here).
\<close>

datatype pyfloat = Finite rat | PosInf | NegInf | NaN

text \<open>\<open>ilog2 x\<close> is the binary exponent of a nonzero \<open>x\<close>: \<open>2^e \<le> |x| < 2^(e+1)\<close>.\<close>

definition ilog2 :: "rat \<Rightarrow> int" where
  "ilog2 x = (case quotient_of \<bar>x\<bar> of (p, q) \<Rightarrow>
     let e = bitlen p - bitlen q in
     if of_int q * 2 powi e \<le> (of_int p :: rat) then e else e - 1)"

text \<open>Rounding to the nearest integer, ties to the even one.\<close>

definition round_half_even :: "rat \<Rightarrow> int" where
  "round_half_even z = (let f = \<lfloor>z\<rfloor>; d = z - of_int f in
     if d < 1 / 2 then f else if 1 / 2 < d then f + 1 else if even f then f else f + 1)"

text \<open>
  The exponent of the unit in the last place: 53 significant bits, and the subnormal
  numbers are the multiples of \<open>2^-1074\<close>.
\<close>

definition quantum :: "rat \<Rightarrow> int" where
  "quantum x = max (ilog2 x - 52) (- 1074)"

text \<open>Round to nearest, ties to even, with an unbounded exponent.\<close>

definition rnd :: "rat \<Rightarrow> rat" where
  "rnd x = (if x = 0 then 0
     else of_int (round_half_even (x / 2 powi quantum x)) * 2 powi quantum x)"

text \<open>The float nearest to a rational; a result of magnitude \<open>2^1024\<close> overflows.\<close>

definition fl :: "rat \<Rightarrow> pyfloat" where
  "fl x = (let y = rnd x in
     if 2 ^ 1024 \<le> y then PosInf else if y \<le> - (2 ^ 1024) then NegInf else Finite y)"

text \<open>\<open>float(n)\<close> and the implicit conversion of an \<open>int\<close> operand of a float operation.\<close>

definition float_of_int :: "int \<Rightarrow> pyerror + pyfloat" where
  "float_of_int n = (case fl (of_int n) of
       Finite y \<Rightarrow> Inr (Finite y)
     | _ \<Rightarrow> Inl OverflowError)"

definition fsign :: "pyfloat \<Rightarrow> int" where
  "fsign a = (case a of Finite x \<Rightarrow> sgn \<lfloor>sgn x\<rfloor> | PosInf \<Rightarrow> 1 | NegInf \<Rightarrow> - 1 | NaN \<Rightarrow> 0)"

definition inf_of_sign :: "int \<Rightarrow> pyfloat" where
  "inf_of_sign s = (if s = 0 then NaN else if 0 < s then PosInf else NegInf)"

text \<open>\<open>a * b\<close> on floats.\<close>

definition fmul :: "pyfloat \<Rightarrow> pyfloat \<Rightarrow> pyfloat" where
  "fmul a b = (case (a, b) of
       (Finite x, Finite y) \<Rightarrow> fl (x * y)
     | _ \<Rightarrow> if a = NaN \<or> b = NaN then NaN else inf_of_sign (fsign a * fsign b))"

text \<open>\<open>a + b\<close> on floats.\<close>

definition fadd :: "pyfloat \<Rightarrow> pyfloat \<Rightarrow> pyfloat" where
  "fadd a b = (case (a, b) of
       (Finite x, Finite y) \<Rightarrow> fl (x + y)
     | (Finite x, _) \<Rightarrow> b
     | (_, Finite y) \<Rightarrow> a
     | _ \<Rightarrow> if a = b then a else NaN)"

text \<open>\<open>a / b\<close> on floats: Python tests the divisor for zero first.\<close>

definition fdiv :: "pyfloat \<Rightarrow> pyfloat \<Rightarrow> pyerror + pyfloat" where
  "fdiv a b = (if b = Finite 0 then Inl ZeroDivisionError
     else Inr (case (a, b) of
         (Finite x, Finite y) \<Rightarrow> fl (x / y)
       | (Finite x, NaN) \<Rightarrow> NaN
       | (Finite x, _) \<Rightarrow> Finite 0
       | (NaN, _) \<Rightarrow> NaN
       | (_, Finite y) \<Rightarrow> inf_of_sign (fsign a * fsign b)
       | _ \<Rightarrow> NaN))"

text \<open>Truncation toward zero.\<close>

definition trunc :: "rat \<Rightarrow> int" where
  "trunc y = (if 0 \<le> y then \<lfloor>y\<rfloor> else \<lceil>y\<rceil>)"

text \<open>\<open>int(x)\<close> for a float \<open>x\<close>.\<close>

definition int_of_float :: "pyfloat \<Rightarrow> pyerror + int" where
  "int_of_float a = (case a of
       Finite y \<Rightarrow> Inr (trunc y)
     | NaN \<Rightarrow> Inl ValueError
     | _ \<Rightarrow> Inl OverflowError)"

subsection \<open>String formatting\<close>

text \<open>\<open>str(n)\<close> for a natural number: its decimal digits.\<close>

definition digit_char :: "nat \<Rightarrow> char" where
  "digit_char d = ''0123456789'' ! d"

function str_nat :: "nat \<Rightarrow> string" where
  "str_nat n = (if n < 10 then [digit_char n]
     else str_nat (n div 10) @ [digit_char (n mod 10)])"
  by pat_completeness auto
termination
  by (relation "measure id") auto

declare str_nat.simps [simp del]

text \<open>\<open>"{}".format(p)\<close> for a prefix that is a string or \<open>None\<close>.\<close>

definition str_prefix :: "string option \<Rightarrow> string" where
  "str_prefix p = (case p of None \<Rightarrow> ''None'' | Some s \<Rightarrow> s)"

text \<open>\<open>"{} ({}/{}).".format(prefix, a, b)\<close>\<close>

definition format_status :: "string option \<Rightarrow> nat \<Rightarrow> nat \<Rightarrow> string" where
  "format_status p a b = str_prefix p @ '' ('' @ str_nat a @ ''/'' @ str_nat b @ '').''"

section \<open>The class \<open>Monitor\<close>\<close>

text \<open>
  The period given to the constructor: \<open>None\<close>, a \<open>float\<close> (the \<open>isinstance\<close> test of
  \<open>_get_period\<close>) or an \<open>int\<close>.
\<close>

datatype period = NoPeriod | FloatPeriod pyfloat | IntPeriod int

text \<open>
  The fields of a \<open>Monitor\<close>.  The bounds are Python integers, as at every call in the
  repository; the iterable is a list, so that it can be enumerated again by \<open>__len__\<close>.
  The job is not a field of the model: its \<open>update\<close> method is the only thing called on
  it, and each call is recorded as an event.
\<close>

record 'a monitor =
  mon_start :: int
  mon_end :: int
  mon_update_period :: period
  mon_iterable :: "'a list"
  mon_prefix :: "string option"

text \<open>
  What a consumer of the generator observes, in order: a call
  \<open>job.update(progress=p, statusComment=s)\<close>, or a yielded element.
\<close>

datatype 'a event = Update int string | Yield 'a

text \<open>\<open>Monitor.__len__\<close>\<close>

definition monitor_len :: "'a monitor \<Rightarrow> nat" where
  "monitor_len m = length (mon_iterable m)"

text \<open>\<open>Monitor._get_period\<close>\<close>

definition get_period :: "'a monitor \<Rightarrow> nat \<Rightarrow> pyerror + int option" where
  "get_period m n_iter = (case mon_update_period m of
       NoPeriod \<Rightarrow> Inr None
     | FloatPeriod f \<Rightarrow>
         (case float_of_int (int n_iter) of
            Inl e \<Rightarrow> Inl e
          | Inr n \<Rightarrow>
              (case int_of_float (fmul f n) of
                 Inl e \<Rightarrow> Inl e
               | Inr k \<Rightarrow> Inr (Some (max k 1))))
     | IntPeriod p \<Rightarrow> Inr (Some p))"

text \<open>\<open>Monitor._relative_progress\<close>\<close>

definition relative_progress :: "'a monitor \<Rightarrow> pyfloat \<Rightarrow> pyerror + int" where
  "relative_progress m ratio =
     (case float_of_int (mon_end m - mon_start m) of
        Inl e \<Rightarrow> Inl e
      | Inr d \<Rightarrow>
          (case float_of_int (mon_start m) of
             Inl e \<Rightarrow> Inl e
           | Inr s \<Rightarrow> int_of_float (fadd s (fmul d ratio))))"

text \<open>The test \<open>period is None or i % period == 0\<close>.\<close>

definition period_hit :: "int option \<Rightarrow> nat \<Rightarrow> pyerror + bool" where
  "period_hit period i = (case period of
       None \<Rightarrow> Inr True
     | Some p \<Rightarrow> if p = 0 then Inl ZeroDivisionError else Inr (int i mod p = 0))"

text \<open>The expression \<open>i / float(tot)\<close>.\<close>

definition ratio_of :: "nat \<Rightarrow> nat \<Rightarrow> pyerror + pyfloat" where
  "ratio_of i tot =
     (case float_of_int (int tot) of
        Inl e \<Rightarrow> Inl e
      | Inr t \<Rightarrow>
          (case float_of_int (int i) of
             Inl e \<Rightarrow> Inl e
           | Inr a \<Rightarrow> fdiv a t))"

text \<open>
  The body of the loop of \<open>__iter__\<close> before the \<open>yield\<close>, at index \<open>i\<close>: the calls of
  \<open>job.update\<close> it makes (none or one), or the exception it raises.
\<close>

definition loop_body :: "'a monitor \<Rightarrow> nat \<Rightarrow> nat \<Rightarrow> pyerror + 'a event list" where
  "loop_body m tot i =
     (case get_period m tot of
        Inl e \<Rightarrow> Inl e
      | Inr period \<Rightarrow>
          (case period_hit period i of
             Inl e \<Rightarrow> Inl e
           | Inr False \<Rightarrow> Inr []
           | Inr True \<Rightarrow>
               (let statusComment = format_status (mon_prefix m) (i + 1) (monitor_len m) in
                case ratio_of i tot of
                  Inl e \<Rightarrow> Inl e
                | Inr ratio \<Rightarrow>
                    (case relative_progress m ratio of
                       Inl e \<Rightarrow> Inl e
                     | Inr p \<Rightarrow> Inr [Update p statusComment]))))"

text \<open>
  The loop over \<open>enumerate(self._iterable)\<close>, run to its end: the events in order, and
  the exception that ended the iteration, if one did.
\<close>

fun iter_from :: "'a monitor \<Rightarrow> nat \<Rightarrow> nat \<Rightarrow> 'a list \<Rightarrow> 'a event list \<times> pyerror option" where
  "iter_from m tot i [] = ([], None)"
| "iter_from m tot i (v # vs) =
     (case loop_body m tot i of
        Inl e \<Rightarrow> ([], Some e)
      | Inr evs \<Rightarrow>
          (case iter_from m tot (Suc i) vs of
             (tr, r) \<Rightarrow> (evs @ Yield v # tr, r)))"

text \<open>\<open>Monitor.__iter__\<close>\<close>

definition monitor_iter :: "'a monitor \<Rightarrow> 'a event list \<times> pyerror option" where
  "monitor_iter m = iter_from m (monitor_len m) 0 (mon_iterable m)"

text \<open>The elements a trace yields, and the calls of \<open>job.update\<close> in it.\<close>

fun yielded :: "'a event list \<Rightarrow> 'a list" where
  "yielded [] = []"
| "yielded (Yield v # tr) = v # yielded tr"
| "yielded (Update p s # tr) = yielded tr"

fun updates :: "'a event list \<Rightarrow> (int \<times> string) list" where
  "updates [] = []"
| "updates (Yield v # tr) = updates tr"
| "updates (Update p s # tr) = (p, s) # updates tr"

section \<open>What the claims speak of\<close>

text \<open>
  The period specifications the claims range over: none, an integer \<open>P \<ge> 1\<close>, or a
  finite float \<open>F\<close> with \<open>0 < F \<le> 1\<close>.
\<close>

definition valid_period :: "period \<Rightarrow> bool" where
  "valid_period p = (case p of
       NoPeriod \<Rightarrow> True
     | IntPeriod k \<Rightarrow> 1 \<le> k
     | FloatPeriod f \<Rightarrow> (case f of Finite x \<Rightarrow> 0 < x \<and> x \<le> 1 | _ \<Rightarrow> False))"

text \<open>
  The bounds are far inside the range of binary64, and the list is one that CPython can
  hold (its length is below \<open>2^63\<close>): then no conversion and no operation of
  \<open>__iter__\<close> overflows.
\<close>

definition in_float_range :: "'a monitor \<Rightarrow> bool" where
  "in_float_range m \<longleftrightarrow>
     \<bar>mon_start m\<bar> \<le> 2 ^ 1021 \<and> \<bar>mon_end m\<bar> \<le> 2 ^ 1021 \<and> monitor_len m < 2 ^ 63"

text \<open>
  The value of \<open>max(int(F * n_iter), 1)\<close> in binary64 arithmetic: the length is
  converted to a float, the product is rounded, and \<open>int\<close> truncates.
\<close>

definition float_period :: "rat \<Rightarrow> nat \<Rightarrow> int" where
  "float_period f n = max (trunc (rnd (f * rnd (of_nat n)))) 1"

text \<open>The value of \<open>i / float(total)\<close> in binary64 arithmetic.\<close>

definition float_ratio :: "nat \<Rightarrow> nat \<Rightarrow> rat" where
  "float_ratio i n = rnd (rnd (of_nat i) / rnd (of_nat n))"

text \<open>
  The value of \<open>int(start + (end - start) * (i / float(total)))\<close> in binary64
  arithmetic: every integer operand is converted to the nearest float, and the
  quotient, the product and the sum are each rounded to the nearest float.
\<close>

definition float_progress :: "int \<Rightarrow> int \<Rightarrow> nat \<Rightarrow> nat \<Rightarrow> int" where
  "float_progress s e i n =
     trunc (rnd (rnd (of_int s) + rnd (rnd (of_int (e - s)) * float_ratio i n)))"

text \<open>
  The formulas as the specification writes them, in exact arithmetic:
  \<open>start + (end - start) * (i / N)\<close> truncated toward zero, and
  \<open>max(floor(F * N), 1)\<close>.
\<close>

definition exact_progress :: "int \<Rightarrow> int \<Rightarrow> nat \<Rightarrow> nat \<Rightarrow> int" where
  "exact_progress s e i n = trunc (of_int s + of_int (e - s) * (of_nat i / of_nat n))"

definition exact_period :: "rat \<Rightarrow> nat \<Rightarrow> int" where
  "exact_period f n = max \<lfloor>f * of_nat n\<rfloor> 1"

text \<open>The period \<open>_get_period\<close> returns for a valid period specification.\<close>

definition effective_period :: "period \<Rightarrow> nat \<Rightarrow> int option" where
  "effective_period p n = (case p of
       NoPeriod \<Rightarrow> None
     | IntPeriod k \<Rightarrow> Some k
     | FloatPeriod f \<Rightarrow> (case f of Finite x \<Rightarrow> Some (float_period x n) | _ \<Rightarrow> None))"

text \<open>The indices at which a report is made, and the report made there.\<close>

definition reports_at :: "'a monitor \<Rightarrow> nat \<Rightarrow> bool" where
  "reports_at m i = (case effective_period (mon_update_period m) (monitor_len m) of
       None \<Rightarrow> True
     | Some k \<Rightarrow> int i mod k = 0)"

definition report_events :: "'a monitor \<Rightarrow> nat \<Rightarrow> 'a event list" where
  "report_events m i =
     (if reports_at m i
      then [Update (float_progress (mon_start m) (mon_end m) i (monitor_len m))
              (format_status (mon_prefix m) (i + 1) (monitor_len m))]
      else [])"

text \<open>
  The trace of a whole iteration: for each index in order, the report made there (if
  one is made), then the element.
\<close>

definition expected_trace :: "'a monitor \<Rightarrow> 'a event list" where
  "expected_trace m =
     concat (map (\<lambda>i. report_events m i @ [Yield (mon_iterable m ! i)]) [0..<monitor_len m])"

section \<open>Arrays\<close>

text \<open>
  A NumPy array or a Torch tensor: its shape and its elements in row-major order.  One
  type \<open>'v\<close> stands for the element types of all the numeric arrays of \<open>predict_img\<close>.
\<close>

record 'v ndarray =
  shape :: "nat list"
  elems :: "'v list"

text \<open>An elementwise operation keeps the shape.\<close>

definition np_map :: "('v \<Rightarrow> 'w) \<Rightarrow> 'v ndarray \<Rightarrow> 'w ndarray" where
  "np_map f a = \<lparr>shape = shape a, elems = map f (elems a)\<rparr>"

text \<open>
  \<open>np.transpose(a, axes=[2, 0, 1])\<close>: an array of three dimensions \<open>(h, w, c)\<close> becomes
  one of shape \<open>(c, h, w)\<close>; for any other number of dimensions NumPy raises
  \<open>ValueError\<close> (axes don't match array).
\<close>

definition np_transpose_201 :: "'v ndarray \<Rightarrow> pyerror + 'v ndarray" where
  "np_transpose_201 a = (case shape a of
       [h, w, c] \<Rightarrow>
         Inr \<lparr>shape = [c, h, w],
              elems = concat (map (\<lambda>k. concat (map (\<lambda>i. map (\<lambda>j. elems a ! ((i * w + j) * c + k))
                        [0..<w]) [0..<h])) [0..<c])\<rparr>
     | _ \<Rightarrow> Inl ValueError)"

text \<open>\<open>t.unsqueeze(0)\<close>, \<open>t.squeeze(0)\<close> and \<open>t.squeeze()\<close> of Torch.\<close>

definition unsqueeze0 :: "'v ndarray \<Rightarrow> 'v ndarray" where
  "unsqueeze0 a = a\<lparr>shape := 1 # shape a\<rparr>"

definition squeeze0 :: "'v ndarray \<Rightarrow> 'v ndarray" where
  "squeeze0 a = (case shape a of
       d # ds \<Rightarrow> if d = 1 then a\<lparr>shape := ds\<rparr> else a
     | [] \<Rightarrow> a)"

definition squeeze_all :: "'v ndarray \<Rightarrow> 'v ndarray" where
  "squeeze_all a = a\<lparr>shape := filter (\<lambda>d. d \<noteq> 1) (shape a)\<rparr>"

subsection \<open>Binary32 and the comparison with a Python scalar\<close>

text \<open>
  Rounding to the nearest binary32 number, ties to even: 24 significant bits, the
  subnormal numbers are the multiples of \<open>2^-149\<close>, and a result of magnitude
  \<open>2^128\<close> overflows.  This is the conversion of a Python \<open>float\<close> to \<open>float32\<close>.
\<close>

definition quantum32 :: "rat \<Rightarrow> int" where
  "quantum32 x = max (ilog2 x - 23) (- 149)"

definition rnd32 :: "rat \<Rightarrow> rat" where
  "rnd32 x = (if x = 0 then 0
     else of_int (round_half_even (x / 2 powi quantum32 x)) * 2 powi quantum32 x)"

definition fl32 :: "rat \<Rightarrow> pyfloat" where
  "fl32 x = (let y = rnd32 x in
     if 2 ^ 128 \<le> y then PosInf else if y \<le> - (2 ^ 128) then NegInf else Finite y)"

text \<open>\<open>a > b\<close> on floating-point values: false whenever one of them is a NaN.\<close>

definition float_gt :: "pyfloat \<Rightarrow> pyfloat \<Rightarrow> bool" where
  "float_gt a b = (case (a, b) of
       (Finite x, Finite y) \<Rightarrow> y < x
     | (Finite x, NegInf) \<Rightarrow> True
     | (PosInf, Finite y) \<Rightarrow> True
     | (PosInf, NegInf) \<Rightarrow> True
     | _ \<Rightarrow> False)"

text \<open>
  The Python \<open>float\<close> operand of a comparison with a \<open>float32\<close> array, as NumPy
  compares it: converted to \<open>float32\<close>, the type of the array.  Under the promotion
  rules of NumPy 1 an array of no dimension counts as a scalar, and a scalar of
  magnitude \<open>3.4e38\<close> or more does not fit \<open>float32\<close>: in both cases the comparison
  is made in \<open>float64\<close>, where the Python \<open>float\<close> is unchanged.  \<open>weak\<close> says that the
  rules of NumPy 2 are in force, under which the conversion is made for every array
  and every scalar.
\<close>

definition fits_float32 :: "rat \<Rightarrow> bool" where
  "fits_float32 x = (\<bar>x\<bar> < 339999999999999996123846586046231871488)"

definition scalar_operand :: "bool \<Rightarrow> nat list \<Rightarrow> pyfloat \<Rightarrow> pyfloat" where
  "scalar_operand weak sh t = (case t of
       Finite x \<Rightarrow> if weak \<or> (sh \<noteq> [] \<and> fits_float32 x) then fl32 x else Finite x
     | _ \<Rightarrow> t)"

section \<open>The function \<open>predict_img\<close>\<close>

text \<open>
  The numeric kernels of OpenCV, NumPy and torchvision that \<open>predict_img\<close> calls are
  parameters of the model: \<open>cv2.resize(img, None, fx=s, fy=s, interpolation=INTER_CUBIC)\<close>
  with the images it accepts and the dimension it scales a side to, the conversion of
  an element to \<open>float32\<close>, the division of an element by an integer, and the composed
  transform \<open>ToPILImage(), Resize((height, width)), ToTensor()\<close>.  With them come the
  floating-point value an array element denotes, and the promotion rules of the NumPy
  at hand.
\<close>

record 'v libs =
  cv2_supported :: "'v ndarray \<Rightarrow> bool"
  scaled_dim :: "nat \<Rightarrow> pyfloat \<Rightarrow> nat"
  cv2_resize :: "'v ndarray \<Rightarrow> pyfloat \<Rightarrow> pyerror + 'v ndarray"
  to_float32 :: "'v \<Rightarrow> 'v"
  true_divide :: "'v \<Rightarrow> int \<Rightarrow> 'v"
  pil_resize :: "nat \<times> nat \<Rightarrow> 'v ndarray \<Rightarrow> pyerror + 'v ndarray"
  elem_value :: "'v \<Rightarrow> pyfloat"
  weak_scalars :: bool

text \<open>
  The network, of which the repository's \<open>pspnet\<close> module is not among the sources: its
  mode (set by \<open>net.eval()\<close>) and its forward function, which may depend on the mode.
\<close>

record 'v net =
  training :: bool
  forward :: "bool \<Rightarrow> 'v ndarray \<Rightarrow> pyerror + 'v ndarray"

text \<open>
  \<open>a > t\<close> for a \<open>float32\<close> array \<open>a\<close> and a Python \<open>float\<close> \<open>t\<close>: elementwise, each
  element compared with the scalar operand.
\<close>

definition np_greater :: "'v libs \<Rightarrow> 'v ndarray \<Rightarrow> pyfloat \<Rightarrow> bool ndarray" where
  "np_greater L a t =
     np_map (\<lambda>p. float_gt (elem_value L p) (scalar_operand (weak_scalars L) (shape a) t)) a"

text \<open>\<open>normalize\<close>\<close>

definition normalize :: "'v libs \<Rightarrow> 'v ndarray \<Rightarrow> 'v ndarray" where
  "normalize L x = np_map (\<lambda>v. true_divide L v 255) x"

text \<open>
  Lines 24 to 44 of \<open>predict_img\<close>: the array \<open>mask_np\<close>, or the exception raised on
  the way.  The unpacking \<open>height, width, channel = full_img.shape\<close> raises
  \<open>ValueError\<close> unless the shape has exactly three entries.
\<close>

definition mask_np :: "'v libs \<Rightarrow> 'v net \<Rightarrow> 'v ndarray \<Rightarrow> pyfloat \<Rightarrow> pyerror + 'v ndarray" where
  "mask_np L net1 full_img scale_factor =
     (case shape full_img of
        [height, width, channel] \<Rightarrow>
          (case cv2_resize L full_img scale_factor of
             Inl e \<Rightarrow> Inl e
           | Inr img \<Rightarrow>
               (case np_transpose_201 (normalize L (np_map (to_float32 L) img)) of
                  Inl e \<Rightarrow> Inl e
                | Inr img' \<Rightarrow>
                    (case forward net1 (training net1) (unsqueeze0 img') of
                       Inl e \<Rightarrow> Inl e
                     | Inr y \<Rightarrow>
                         (case pil_resize L (height, width) (squeeze0 y) of
                            Inl e \<Rightarrow> Inl e
                          | Inr proba \<Rightarrow> Inr (squeeze_all proba)))))
      | _ \<Rightarrow> Inl ValueError)"

text \<open>
  \<open>predict_img\<close>: \<open>net.eval()\<close>, then the lines above, then \<open>mask_np > out_threshold\<close>.
  The result is the network with its new mode, and the mask or the exception.
\<close>

definition predict_img ::
  "'v libs \<Rightarrow> 'v net \<Rightarrow> 'v ndarray \<Rightarrow> pyfloat \<Rightarrow> pyfloat
     \<Rightarrow> 'v net \<times> (pyerror + bool ndarray)" where
  "predict_img L net0 full_img scale_factor out_threshold =
     (let net1 = net0\<lparr>training := False\<rparr> in
      (net1, case mask_np L net1 full_img scale_factor of
               Inl e \<Rightarrow> Inl e
             | Inr a \<Rightarrow> Inr (np_greater L a out_threshold)))"

text \<open>
  What the libraries are relied on for.  OpenCV scales an image it accepts, of shape
  \<open>(h, w, c)\<close>, to the scaled dimensions when neither is zero, and returns an array of
  two dimensions when there is one channel.  The transform maps a one-channel tensor
  \<open>(1, h, w)\<close> to one of shape \<open>(1, height, width)\<close>.
\<close>

definition lib_contract :: "'v libs \<Rightarrow> bool" where
  "lib_contract L \<longleftrightarrow>
     (\<forall>img s h w c. cv2_supported L img \<longrightarrow> shape img = [h, w, c] \<longrightarrow>
        0 < scaled_dim L h s \<longrightarrow> 0 < scaled_dim L w s \<longrightarrow>
        (\<exists>r. cv2_resize L img s = Inr r \<and>
           shape r = (if c = 1 then [scaled_dim L h s, scaled_dim L w s]
                      else [scaled_dim L h s, scaled_dim L w s, c])))
     \<and> (\<forall>p h w H W. shape p = [1, h, w] \<longrightarrow>
        (\<exists>q. pil_resize L (H, W) p = Inr q \<and> shape q = [1, H, W]))"

text \<open>
  Modelled from the spec: the module \<open>pspnet\<close>, which defines the network, is missing
  from the sources.  The specification describes the model as a callable that maps a
  batch of shape \<open>(1, C, h, w)\<close> to a probability map of shape \<open>(1, 1, h, w)\<close>; it is
  run in evaluation mode.
\<close>

definition net_contract :: "'v net \<Rightarrow> bool" where
  "net_contract net1 \<longleftrightarrow>
     (\<forall>x c h w. shape x = [1, c, h, w] \<longrightarrow>
        (\<exists>y. forward net1 False x = Inr y \<and> shape y = [1, 1, h, w]))"

text \<open>
  A small instance of the libraries and of the network, for evaluating the code on
  examples: the resize fills the scaled image with zeros, the network answers one half
  everywhere, and the transform back to the native size writes the \<open>float32\<close> values of
  \<open>0, 51/255, 102/255, ...\<close> (the bytes 0, 51, 102, ... as \<open>ToTensor\<close> scales them) in
  row-major order.  Its elements are rational numbers, each the value it denotes.
\<close>

definition toy_scaled :: "nat \<Rightarrow> pyfloat \<Rightarrow> nat" where
  "toy_scaled n s = (case s of Finite x \<Rightarrow> nat (round_half_even (of_nat n * x)) | _ \<Rightarrow> 0)"

definition toy_resize :: "rat ndarray \<Rightarrow> pyfloat \<Rightarrow> pyerror + rat ndarray" where
  "toy_resize a s = (case shape a of
       [h, w, c] \<Rightarrow>
         if toy_scaled h s = 0 \<or> toy_scaled w s = 0 then Inl LibraryError
         else Inr \<lparr>shape = (if c = 1 then [toy_scaled h s, toy_scaled w s]
                               else [toy_scaled h s, toy_scaled w s, c]),
                   elems = replicate (toy_scaled h s * toy_scaled w s * c) 0\<rparr>
     | _ \<Rightarrow> Inl LibraryError)"

definition toy_pil :: "nat \<times> nat \<Rightarrow> rat ndarray \<Rightarrow> pyerror + rat ndarray" where
  "toy_pil hw p = (case shape p of
       [c, h, w] \<Rightarrow>
         Inr \<lparr>shape = [c, fst hw, snd hw],
              elems = map (\<lambda>i. rnd32 (of_nat (51 * i mod 256) / 255))
                        [0..<c * fst hw * snd hw]\<rparr>
     | _ \<Rightarrow> Inl LibraryError)"

definition toy_libs :: "rat libs" where
  "toy_libs = \<lparr>cv2_supported = (\<lambda>a. True), scaled_dim = toy_scaled, cv2_resize = toy_resize,
     to_float32 = (\<lambda>v. v), true_divide = (\<lambda>v k. v / of_int k), pil_resize = toy_pil,
     elem_value = Finite, weak_scalars = False\<rparr>"

definition toy_net :: "rat net" where
  "toy_net = \<lparr>training = True,
     forward = (\<lambda>mode x. case shape x of
         [b, c, h, w] \<Rightarrow> Inr \<lparr>shape = [b, 1, h, w], elems = replicate (b * h * w) (1 / 2)\<rparr>
       | _ \<Rightarrow> Inl LibraryError)\<rparr>"

section \<open>Binary64 rounding\<close>

subsection \<open>The binary exponent\<close>

lemma bitlen_powi_bounds:
  assumes "0 < p"
  shows "(2::rat) powi (bitlen p - 1) \<le> of_int p" "(of_int p :: rat) < 2 powi (bitlen p)"
proof -
  from bitlen_bounds[OF assms] have a: "2 ^ nat (bitlen p - 1) \<le> p" and b: "p < 2 ^ nat (bitlen p)"
    by auto
  have pos: "0 < bitlen p" using assms bitlen_nonneg[of p] bitlen_eq_zero_iff[of p] by linarith
  have "(of_int (2 ^ nat (bitlen p - 1)) :: rat) \<le> of_int p" using a by (simp only: of_int_le_iff)
  then show "(2::rat) powi (bitlen p - 1) \<le> of_int p"
    using pos by (simp add: power_int_def)
  have "(of_int p :: rat) < of_int (2 ^ nat (bitlen p))" using b by (simp only: of_int_less_iff)
  then show "(of_int p :: rat) < 2 powi (bitlen p)"
    using pos by (simp add: power_int_def)
qed

lemma ilog2_bounds:
  assumes "x \<noteq> 0"
  shows "2 powi (ilog2 x) \<le> \<bar>x\<bar>" "\<bar>x\<bar> < 2 powi (ilog2 x + 1)"
proof -
  obtain p q where pq: "quotient_of \<bar>x\<bar> = (p, q)" by (cases "quotient_of \<bar>x\<bar>")
  have q: "0 < q" using pq quotient_of_denom_pos by blast
  have x: "\<bar>x\<bar> = of_int p / of_int q" using pq quotient_of_div by blast
  have p: "0 < p" using assms x q
  proof -
    have "(0::rat) < of_int p / of_int q" using assms x by (metis zero_less_abs_iff)
    then show ?thesis using q by (simp add: zero_less_divide_iff)
  qed
  define e where "e = bitlen p - bitlen q"
  note bp = bitlen_powi_bounds[OF p] and bq = bitlen_powi_bounds[OF q]
  have qpos: "(0::rat) < of_int q" using q by simp
  show "2 powi (ilog2 x) \<le> \<bar>x\<bar>"
  proof (cases "of_int q * 2 powi e \<le> (of_int p :: rat)")
    case True
    then have "ilog2 x = e" by (simp add: ilog2_def pq e_def Let_def)
    moreover have "2 powi e \<le> (of_int p :: rat) / of_int q"
      using True qpos by (simp add: pos_le_divide_eq mult.commute)
    ultimately show ?thesis using x by simp
  next
    case False
    then have il: "ilog2 x = e - 1" by (simp add: ilog2_def pq e_def Let_def)
    have "(of_int q :: rat) * 2 powi (e - 1) \<le> (2 powi bitlen q) * 2 powi (e - 1)"
      using bq(2) by (simp add: mult_right_mono)
    also have "\<dots> = 2 powi (bitlen p - 1)"
      by (simp add: e_def power_int_add[symmetric])
    also have "\<dots> \<le> of_int p" using bp(1) .
    finally have "2 powi (e - 1) \<le> (of_int p :: rat) / of_int q"
      using qpos by (simp add: pos_le_divide_eq mult.commute)
    then show ?thesis using x il by simp
  qed
  show "\<bar>x\<bar> < 2 powi (ilog2 x + 1)"
  proof (cases "of_int q * 2 powi e \<le> (of_int p :: rat)")
    case True
    then have il: "ilog2 x = e" by (simp add: ilog2_def pq e_def Let_def)
    have "(of_int p :: rat) < 2 powi bitlen p" using bp(2) .
    also have "\<dots> = 2 powi (bitlen q - 1) * 2 powi (e + 1)"
      by (simp add: e_def power_int_add[symmetric])
    also have "\<dots> \<le> of_int q * 2 powi (e + 1)"
      using bq(1) by (simp add: mult_right_mono)
    finally have "(of_int p :: rat) / of_int q < 2 powi (e + 1)"
      using qpos by (simp add: pos_divide_less_eq mult.commute)
    then show ?thesis using x il by simp
  next
    case False
    then have il: "ilog2 x = e - 1" by (simp add: ilog2_def pq e_def Let_def)
    moreover have "(of_int p :: rat) / of_int q < 2 powi e"
      using False qpos by (simp add: pos_divide_less_eq mult.commute)
    ultimately show ?thesis using x by simp
  qed
qed

lemma powi2_less_cancel: "(2::rat) powi a < 2 powi b \<Longrightarrow> a < b"
  using power_int_increasing[of b a "2::rat"] by (cases "a < b") auto

lemma ilog2_unique:
  assumes "2 powi e \<le> \<bar>x\<bar>" "\<bar>x\<bar> < 2 powi (e + 1)"
  shows "ilog2 x = e"
proof -
  have nz: "x \<noteq> 0" using assms(1)
    by (metis abs_zero not_le zero_less_numeral zero_less_power_int)
  note b = ilog2_bounds[OF nz]
  have "2 powi e < (2::rat) powi (ilog2 x + 1)" using assms(1) b(2) by simp
  then have 1: "e < ilog2 x + 1" by (rule powi2_less_cancel)
  have "2 powi (ilog2 x) < (2::rat) powi (e + 1)" using assms(2) b(1) by simp
  then have 2: "ilog2 x < e + 1" by (rule powi2_less_cancel)
  show ?thesis using 1 2 by simp
qed

subsection \<open>Rounding to an integer\<close>

lemma rhe_of_int: "round_half_even (of_int n) = n"
  by (simp add: round_half_even_def)

lemma rhe_cases:
  "round_half_even z = \<lfloor>z\<rfloor> \<or> round_half_even z = \<lfloor>z\<rfloor> + 1"
  by (simp add: round_half_even_def Let_def)

lemma rhe_bounds:
  "z - 1 / 2 \<le> of_int (round_half_even z)" "of_int (round_half_even z) \<le> z + 1 / 2"
proof -
  define f where "f = \<lfloor>z\<rfloor>"
  have f1: "of_int f \<le> z" and f2: "z < of_int f + 1"
    unfolding f_def by linarith+
  consider "z - of_int f < 1 / 2" | "1 / 2 < z - of_int f" | "z - of_int f = 1 / 2"
    by linarith
  then have "z - 1 / 2 \<le> of_int (round_half_even z) \<and> of_int (round_half_even z) \<le> z + 1 / 2"
  proof cases
    case 1
    then have "round_half_even z = f" by (simp add: round_half_even_def f_def Let_def)
    then show ?thesis using 1 f1 by simp
  next
    case 2
    then have "round_half_even z = f + 1" by (simp add: round_half_even_def f_def Let_def)
    then show ?thesis using 2 f2 by simp
  next
    case 3
    then have "round_half_even z = f \<or> round_half_even z = f + 1"
      using rhe_cases[of z] by (simp add: f_def)
    then show ?thesis using 3 by auto
  qed
  then show "z - 1 / 2 \<le> of_int (round_half_even z)" "of_int (round_half_even z) \<le> z + 1 / 2"
    by simp_all
qed

lemma rhe_mono:
  assumes "a \<le> b"
  shows "round_half_even a \<le> round_half_even b"
proof (cases "\<lfloor>a\<rfloor> = \<lfloor>b\<rfloor>")
  case True
  have "a - of_int \<lfloor>b\<rfloor> \<le> b - of_int \<lfloor>b\<rfloor>" using assms by simp
  then show ?thesis
    unfolding round_half_even_def Let_def True by (simp add: not_less)
next
  case False
  then have "\<lfloor>a\<rfloor> < \<lfloor>b\<rfloor>" using assms floor_mono[of a b] by linarith
  then have "round_half_even a \<le> \<lfloor>b\<rfloor>" using rhe_cases[of a] by linarith
  also have "\<dots> \<le> round_half_even b" using rhe_cases[of b] by linarith
  finally show ?thesis .
qed

lemma rhe_neg: "round_half_even (- z) = - round_half_even z"
proof (cases "z = of_int \<lfloor>z\<rfloor>")
  case True
  then have "round_half_even z = \<lfloor>z\<rfloor>" by (metis rhe_of_int)
  moreover have "- z = of_int (- \<lfloor>z\<rfloor>)" using True by simp
  then have "round_half_even (- z) = - \<lfloor>z\<rfloor>" by (metis rhe_of_int)
  ultimately show ?thesis by simp
next
  case False
  have f1: "of_int \<lfloor>z\<rfloor> < z"
    using False of_int_floor_le[of z] by (metis order_less_le)
  have f2: "z < of_int \<lfloor>z\<rfloor> + 1" by linarith
  have f: "\<lfloor>- z\<rfloor> = - \<lfloor>z\<rfloor> - 1"
    by (rule floor_unique) (use f1 f2 in simp_all)
  define g where "g = \<lfloor>z\<rfloor>"
  have par: "even (- g - 1) \<longleftrightarrow> odd g" by simp
  show ?thesis
    unfolding round_half_even_def Let_def f g_def[symmetric] par
    by (simp add: not_less)
qed

subsection \<open>Rounding is exact on the floats\<close>

lemma ilog2_neg: "ilog2 (- x) = ilog2 x"
  by (simp add: ilog2_def)

lemma quantum_neg: "quantum (- x) = quantum x"
  by (simp add: quantum_def ilog2_neg)

lemma rnd_neg: "rnd (- x) = - rnd x"
  by (simp add: rnd_def quantum_neg rhe_neg)

lemma rnd_zero: "rnd 0 = 0"
  by (simp add: rnd_def)

lemma powi2_pos: "(0::rat) < 2 powi k"
  by simp

lemma rnd_of_multiple:
  assumes "x = of_int k * 2 powi quantum x"
  shows "rnd x = x"
proof (cases "x = 0")
  case True
  then show ?thesis by (simp add: rnd_def)
next
  case False
  have "x / 2 powi quantum x = of_int k"
    using assms powi2_pos[of "quantum x"] by (metis nonzero_eq_divide_eq less_irrefl)
  then show ?thesis using assms False by (simp add: rnd_def rhe_of_int)
qed

lemma ilog2_less:
  assumes "x \<noteq> 0" "\<bar>x\<bar> < 2 powi k"
  shows "ilog2 x < k"
proof -
  have "2 powi ilog2 x < (2::rat) powi k"
    using ilog2_bounds(1)[OF assms(1)] assms(2) by simp
  then show ?thesis by (rule powi2_less_cancel)
qed

lemma ilog2_ge:
  assumes "2 powi k \<le> \<bar>x\<bar>"
  shows "k \<le> ilog2 x"
proof -
  have nz: "x \<noteq> 0"
  proof
    assume "x = 0"
    with assms have "(2::rat) powi k \<le> 0" by simp
    with powi2_pos[of k] show False by linarith
  qed
  have "2 powi k < (2::rat) powi (ilog2 x + 1)"
    using ilog2_bounds(2)[OF nz] assms by simp
  then have "k < ilog2 x + 1" by (rule powi2_less_cancel)
  then show ?thesis by simp
qed

lemma rnd_exact_lt:
  assumes m: "\<bar>m\<bar> < 2 ^ 53" and j: "- 1074 \<le> j"
  shows "rnd (of_int m * 2 powi j) = of_int m * 2 powi j"
proof (cases "m = 0")
  case True
  then show ?thesis by (simp add: rnd_def)
next
  case False
  define x :: rat where "x = of_int m * 2 powi j"
  have nz: "x \<noteq> 0" using False by (simp add: x_def)
  have "\<bar>of_int m :: rat\<bar> < 2 ^ 53" using m
    by (metis of_int_abs of_int_less_numeral_power_cancel_iff)
  then have "\<bar>x\<bar> < 2 ^ 53 * 2 powi j"
    by (simp add: x_def abs_mult)
  also have "\<dots> = 2 powi (53 + j)"
    by (simp add: power_int_add)
  finally have "ilog2 x < 53 + j" using nz by (rule ilog2_less[rotated])
  then have q: "quantum x \<le> j" using j by (simp add: quantum_def)
  define d where "d = nat (j - quantum x)"
  have eq: "(2::rat) powi j = 2 powi (quantum x) * 2 ^ d"
    using q by (simp add: d_def power_int_add[symmetric] flip: power_int_of_nat)
  have "x = of_int m * 2 powi j" by (fact x_def)
  also have "\<dots> = of_int m * (2 powi (quantum x) * 2 ^ d)" by (simp only: eq)
  also have "\<dots> = of_int (m * 2 ^ d) * 2 powi quantum x" by simp
  finally have "rnd x = x" by (rule rnd_of_multiple)
  then show ?thesis by (simp add: x_def)
qed

lemma rnd_exact:
  assumes m: "\<bar>m\<bar> \<le> 2 ^ 53" and j: "- 1074 \<le> j"
  shows "rnd (of_int m * 2 powi j) = of_int m * 2 powi j"
proof (cases "\<bar>m\<bar> < 2 ^ 53")
  case True
  then show ?thesis using j by (rule rnd_exact_lt)
next
  case False
  then have "\<bar>m\<bar> = 2 ^ 53" using m by simp
  then consider "m = 2 ^ 53" | "m = - (2 ^ 53)" by linarith
  then show ?thesis
  proof cases
    case 1
    have "(of_int m :: rat) * 2 powi j = of_int (2 ^ 52) * 2 powi (j + 1)"
      by (simp add: 1 power_int_add)
    moreover have "rnd (of_int (2 ^ 52) * 2 powi (j + 1)) = of_int (2 ^ 52) * 2 powi (j + 1)"
      by (rule rnd_exact_lt) (use j in simp_all)
    ultimately show ?thesis by simp
  next
    case 2
    have "(of_int m :: rat) * 2 powi j = of_int (- (2 ^ 52)) * 2 powi (j + 1)"
      by (simp add: 2 power_int_add)
    moreover have "rnd (of_int (- (2 ^ 52)) * 2 powi (j + 1)) = of_int (- (2 ^ 52)) * 2 powi (j + 1)"
      by (rule rnd_exact_lt) (use j in simp_all)
    ultimately show ?thesis by simp
  qed
qed

lemma rnd_of_int:
  assumes "\<bar>n\<bar> \<le> 2 ^ 53"
  shows "rnd (of_int n) = of_int n"
  using rnd_exact[OF assms, of 0] by simp

subsection \<open>Rounding is monotone\<close>

lemma rnd_nonneg:
  assumes "0 \<le> x"
  shows "0 \<le> rnd x"
proof (cases "x = 0")
  case True
  then show ?thesis by (simp add: rnd_def)
next
  case False
  have "0 \<le> x / 2 powi quantum x" using assms by simp
  then have "round_half_even 0 \<le> round_half_even (x / 2 powi quantum x)" by (rule rhe_mono)
  then have "0 \<le> round_half_even (x / 2 powi quantum x)"
    using rhe_of_int[of 0] by simp
  then show ?thesis using False by (simp add: rnd_def)
qed

lemma ilog2_mono:
  assumes "0 < x" "x \<le> y"
  shows "ilog2 x \<le> ilog2 y"
proof -
  have "2 powi ilog2 x \<le> \<bar>y\<bar>" using ilog2_bounds(1)[of x] assms by simp
  then show ?thesis by (rule ilog2_ge)
qed

lemma quantum_mono:
  assumes "0 < x" "x \<le> y"
  shows "quantum x \<le> quantum y"
  using ilog2_mono[OF assms] by (simp add: quantum_def)

lemma rnd_pos_upper:
  assumes "0 < x"
  shows "rnd x \<le> 2 powi (quantum x + 53)"
proof -
  let ?q = "quantum x"
  have "x < 2 powi (ilog2 x + 1)" using ilog2_bounds(2)[of x] assms by simp
  also have "\<dots> \<le> 2 powi (?q + 53)"
    by (rule power_int_increasing) (simp_all add: quantum_def)
  also have "\<dots> = 2 ^ 53 * 2 powi ?q" by (simp add: power_int_add)
  finally have "x / 2 powi ?q \<le> of_int (2 ^ 53)"
    by (simp add: pos_divide_le_eq)
  then have "round_half_even (x / 2 powi ?q) \<le> round_half_even (of_int (2 ^ 53))"
    by (rule rhe_mono)
  then have "round_half_even (x / 2 powi ?q) \<le> 2 ^ 53" by (simp only: rhe_of_int)
  then have "(of_int (round_half_even (x / 2 powi ?q)) :: rat) \<le> 2 ^ 53"
    by (metis of_int_le_numeral_power_cancel_iff)
  then have A: "of_int (round_half_even (x / 2 powi ?q)) * 2 powi ?q \<le> 2 ^ 53 * (2::rat) powi ?q"
    by (simp add: mult_right_mono)
  have C: "rnd x = of_int (round_half_even (x / 2 powi ?q)) * 2 powi ?q"
    using assms by (simp add: rnd_def)
  have "rnd x = of_int (round_half_even (x / 2 powi ?q)) * 2 powi ?q" by (rule C)
  also have "\<dots> \<le> 2 ^ 53 * (2::rat) powi ?q" by (rule A)
  also have "\<dots> = 2 powi (?q + 53)" by (simp add: power_int_add)
  finally show ?thesis .
qed

lemma rnd_pos_lower:
  assumes "0 < x" "- 1074 \<le> ilog2 x - 52"
  shows "2 powi (ilog2 x) \<le> rnd x"
proof -
  let ?q = "quantum x"
  have q: "?q = ilog2 x - 52" using assms(2) by (simp add: quantum_def)
  have "(2::rat) ^ 52 * 2 powi ?q = 2 powi (ilog2 x)"
    by (simp add: q power_int_diff)
  also have "\<dots> \<le> x" using ilog2_bounds(1)[of x] assms by simp
  finally have "of_int (2 ^ 52) \<le> x / 2 powi ?q"
    by (simp add: pos_le_divide_eq)
  then have "round_half_even (of_int (2 ^ 52)) \<le> round_half_even (x / 2 powi ?q)"
    by (rule rhe_mono)
  then have "2 ^ 52 \<le> round_half_even (x / 2 powi ?q)" by (simp only: rhe_of_int)
  then have "(2::rat) ^ 52 \<le> of_int (round_half_even (x / 2 powi ?q))"
    by (metis numeral_power_le_of_int_cancel_iff)
  then have A: "2 ^ 52 * (2::rat) powi ?q \<le> of_int (round_half_even (x / 2 powi ?q)) * 2 powi ?q"
    by (simp add: mult_right_mono)
  have B: "(2::rat) ^ 52 * 2 powi ?q = 2 powi (ilog2 x)"
    by (simp add: q power_int_diff)
  have C: "rnd x = of_int (round_half_even (x / 2 powi ?q)) * 2 powi ?q"
    using assms by (simp add: rnd_def)
  have "2 powi ilog2 x = 2 ^ 52 * (2::rat) powi ?q" by (rule B[symmetric])
  also have "\<dots> \<le> of_int (round_half_even (x / 2 powi ?q)) * 2 powi ?q" by (rule A)
  also have "\<dots> = rnd x" by (rule C[symmetric])
  finally show ?thesis .
qed

lemma rnd_mono_pos:
  assumes "0 < x" "x \<le> y"
  shows "rnd x \<le> rnd y"
proof (cases "quantum x = quantum y")
  case True
  have "x / 2 powi quantum y \<le> y / 2 powi quantum y"
    using assms(2) by (simp add: divide_right_mono)
  then have "round_half_even (x / 2 powi quantum y) \<le> round_half_even (y / 2 powi quantum y)"
    by (rule rhe_mono)
  then have "(of_int (round_half_even (x / 2 powi quantum y)) :: rat) * 2 powi quantum y
      \<le> of_int (round_half_even (y / 2 powi quantum y)) * 2 powi quantum y"
    by (simp add: mult_right_mono)
  then show ?thesis using assms by (simp add: rnd_def True)
next
  case False
  then have lt: "quantum x < quantum y" using quantum_mono[OF assms] by simp
  have y: "0 < y" using assms by simp
  have qy: "- 1074 \<le> ilog2 y - 52" "quantum y = ilog2 y - 52"
    using lt unfolding quantum_def by linarith+
  have "rnd x \<le> 2 powi (quantum x + 53)" using assms(1) by (rule rnd_pos_upper)
  also have "\<dots> \<le> 2 powi (ilog2 y)"
    by (rule power_int_increasing) (use lt qy in simp_all)
  also have "\<dots> \<le> rnd y" using y qy(1) by (rule rnd_pos_lower)
  finally show ?thesis .
qed

lemma rnd_mono:
  assumes "x \<le> y"
  shows "rnd x \<le> rnd y"
proof -
  consider "0 < x" | "x \<le> 0" "0 \<le> y" | "y < 0" using assms by linarith
  then show ?thesis
  proof cases
    case 1
    then show ?thesis using assms by (rule rnd_mono_pos)
  next
    case 2
    have "0 \<le> rnd (- x)" using 2(1) by (intro rnd_nonneg) simp
    then have "rnd x \<le> 0" by (simp add: rnd_neg)
    also have "0 \<le> rnd y" using 2(2) by (rule rnd_nonneg)
    finally show ?thesis .
  next
    case 3
    have "rnd (- y) \<le> rnd (- x)" by (rule rnd_mono_pos) (use 3 assms in simp_all)
    then show ?thesis by (simp add: rnd_neg)
  qed
qed

lemma rnd_le_pow2:
  assumes "x \<le> 2 powi k" "- 1074 \<le> k"
  shows "rnd x \<le> 2 powi k"
proof -
  have "rnd x \<le> rnd (of_int 1 * 2 powi k)" using assms(1) by (intro rnd_mono) simp
  also have "\<dots> = of_int 1 * 2 powi k" by (rule rnd_exact) (use assms in simp_all)
  finally show ?thesis by simp
qed

lemma rnd_abs_le_pow2:
  assumes "\<bar>x\<bar> \<le> 2 powi k" "- 1074 \<le> k"
  shows "\<bar>rnd x\<bar> \<le> 2 powi k"
proof -
  have "rnd x \<le> 2 powi k" using assms by (intro rnd_le_pow2) simp_all
  moreover have "rnd (- x) \<le> 2 powi k" using assms by (intro rnd_le_pow2) simp_all
  ultimately show ?thesis by (simp add: rnd_neg abs_le_iff)
qed

subsection \<open>Operations that do not overflow\<close>

lemma rnd_abs_le_pow:
  assumes "\<bar>x\<bar> \<le> 2 ^ k"
  shows "\<bar>rnd x\<bar> \<le> 2 ^ k"
  using rnd_abs_le_pow2[of x "int k"] assms by (simp add: power_int_of_nat)

lemma rnd_le_pow:
  assumes "x \<le> 2 ^ k"
  shows "rnd x \<le> 2 ^ k"
  using rnd_le_pow2[of x "int k"] assms by (simp add: power_int_of_nat)

lemma fl_Finite:
  assumes "\<bar>x\<bar> \<le> 2 ^ k" "k \<le> 1023"
  shows "fl x = Finite (rnd x)"
proof -
  have "\<bar>rnd x\<bar> \<le> 2 ^ k" using assms(1) by (rule rnd_abs_le_pow)
  also have "(2::rat) ^ k \<le> 2 ^ 1023" using assms(2) by (intro power_increasing) simp_all
  also have "\<dots> < (2::rat) ^ 1024" by (rule power_strict_increasing) simp_all
  finally have "\<bar>rnd x\<bar> < 2 ^ 1024" .
  then have "\<not> 2 ^ 1024 \<le> rnd x" "\<not> rnd x \<le> - (2 ^ 1024)" by linarith+
  then show ?thesis by (simp only: fl_def Let_def if_False)
qed

lemma float_of_int_Finite:
  assumes "\<bar>n\<bar> \<le> 2 ^ k" "k \<le> 1023"
  shows "float_of_int n = Inr (Finite (rnd (of_int n)))"
proof -
  have "\<bar>of_int n :: rat\<bar> \<le> 2 ^ k" using assms(1)
    by (metis of_int_abs of_int_le_numeral_power_cancel_iff)
  then have "fl (of_int n) = Finite (rnd (of_int n))" using assms(2) by (rule fl_Finite)
  then show ?thesis by (simp add: float_of_int_def)
qed

lemma rnd_one: "rnd 1 = 1"
  using rnd_of_int[of 1] by simp

lemma rnd_of_nat_ge_one:
  assumes "0 < n"
  shows "1 \<le> rnd (of_nat n)"
proof -
  have "rnd 1 \<le> rnd (of_nat n)" using assms by (intro rnd_mono) simp
  then show ?thesis by (simp add: rnd_one)
qed

lemma float_ratio_bounds:
  assumes "i \<le> n" "0 < n"
  shows "0 \<le> float_ratio i n" "float_ratio i n \<le> 1"
proof -
  have n1: "1 \<le> rnd (of_nat n)" using assms(2) by (rule rnd_of_nat_ge_one)
  have i0: "0 \<le> rnd (of_nat i)" by (rule rnd_nonneg) simp
  have le: "rnd (of_nat i) \<le> rnd (of_nat n)" using assms(1) by (intro rnd_mono) simp
  have q0: "0 \<le> rnd (of_nat i) / rnd (of_nat n)" using i0 n1 by simp
  have q1: "rnd (of_nat i) / rnd (of_nat n) \<le> 1" using le n1 by (simp add: divide_le_eq)
  show "0 \<le> float_ratio i n" unfolding float_ratio_def using q0 by (rule rnd_nonneg)
  have "rnd (rnd (of_nat i) / rnd (of_nat n)) \<le> rnd 1" using q1 by (rule rnd_mono)
  then show "float_ratio i n \<le> 1" by (simp add: float_ratio_def rnd_one)
qed

lemma nat_lt_pow63:
  assumes "(n::nat) < 2 ^ 63"
  shows "\<bar>int n\<bar> \<le> 2 ^ 63"
  using assms by (simp add: nat_less_iff flip: of_nat_less_iff) 

lemma ratio_of_ok:
  assumes "i < n" "n < 2 ^ 63"
  shows "ratio_of i n = Inr (Finite (float_ratio i n))"
proof -
  have n: "float_of_int (int n) = Inr (Finite (rnd (of_nat n)))"
    using float_of_int_Finite[OF nat_lt_pow63[OF assms(2)]] by simp
  have "i < 2 ^ 63" using assms by simp
  then have i: "float_of_int (int i) = Inr (Finite (rnd (of_nat i)))"
    using float_of_int_Finite[OF nat_lt_pow63, of i] by simp
  have n1: "1 \<le> rnd (of_nat n)" using assms(1) by (intro rnd_of_nat_ge_one) simp
  then have nz: "Finite (rnd (of_nat n)) \<noteq> Finite 0" by simp
  have b: "0 \<le> rnd (of_nat i) / rnd (of_nat n)" "rnd (of_nat i) / rnd (of_nat n) \<le> 1"
  proof -
    have i0: "0 \<le> rnd (of_nat i)" by (rule rnd_nonneg) simp
    have le: "rnd (of_nat i) \<le> rnd (of_nat n)" using assms(1) by (intro rnd_mono) simp
    show "0 \<le> rnd (of_nat i) / rnd (of_nat n)" using i0 n1 by simp
    show "rnd (of_nat i) / rnd (of_nat n) \<le> 1" using le n1 by (simp add: divide_le_eq)
  qed
  then have "\<bar>rnd (of_nat i) / rnd (of_nat n)\<bar> \<le> 2 ^ 0" by simp
  then have "fl (rnd (of_nat i) / rnd (of_nat n)) = Finite (float_ratio i n)"
    unfolding float_ratio_def by (rule fl_Finite) simp
  then show ?thesis using nz by (simp add: ratio_of_def n i fdiv_def)
qed

lemma relative_progress_ok:
  assumes s: "\<bar>mon_start m\<bar> \<le> 2 ^ 1021" and e: "\<bar>mon_end m\<bar> \<le> 2 ^ 1021"
    and r: "0 \<le> r" "r \<le> 1"
  shows "relative_progress m (Finite r) =
     Inr (trunc (rnd (rnd (of_int (mon_start m)) + rnd (rnd (of_int (mon_end m - mon_start m)) * r))))"
proof -
  let ?s = "rnd (of_int (mon_start m))" and ?d = "rnd (of_int (mon_end m - mon_start m))"
  have d: "\<bar>mon_end m - mon_start m\<bar> \<le> 2 ^ 1022" using s e by simp
  have fs: "float_of_int (mon_start m) = Inr (Finite ?s)"
    using s by (rule float_of_int_Finite) simp
  have fd: "float_of_int (mon_end m - mon_start m) = Inr (Finite ?d)"
    using d by (rule float_of_int_Finite) simp
  have "\<bar>of_int (mon_start m) :: rat\<bar> \<le> 2 ^ 1021" using s
    by (metis of_int_abs of_int_le_numeral_power_cancel_iff)
  then have sb: "\<bar>?s\<bar> \<le> 2 ^ 1021" by (rule rnd_abs_le_pow)
  have "\<bar>of_int (mon_end m - mon_start m) :: rat\<bar> \<le> 2 ^ 1022" using d
    by (metis of_int_abs of_int_le_numeral_power_cancel_iff)
  then have db: "\<bar>?d\<bar> \<le> 2 ^ 1022" by (rule rnd_abs_le_pow)
  have "\<bar>?d * r\<bar> = \<bar>?d\<bar> * r" using r by (simp add: abs_mult)
  also have "\<dots> \<le> \<bar>?d\<bar> * 1" using r by (intro mult_left_mono) simp_all
  also have "\<dots> \<le> 2 ^ 1022" using db by simp
  finally have pb: "\<bar>?d * r\<bar> \<le> 2 ^ 1022" .
  then have fp: "fl (?d * r) = Finite (rnd (?d * r))" by (rule fl_Finite) simp
  have pb': "\<bar>rnd (?d * r)\<bar> \<le> 2 ^ 1022" using pb by (rule rnd_abs_le_pow)
  have "\<bar>?s + rnd (?d * r)\<bar> \<le> 2 ^ 1021 + 2 ^ 1022" using sb pb' by linarith
  also have "\<dots> \<le> (2::rat) ^ 1023" by simp
  finally have "fl (?s + rnd (?d * r)) = Finite (rnd (?s + rnd (?d * r)))"
    by (rule fl_Finite) simp
  then have fa: "fadd (Finite ?s) (Finite (rnd (?d * r))) = Finite (rnd (?s + rnd (?d * r)))"
    by (simp add: fadd_def)
  have fm: "fmul (Finite ?d) (Finite r) = Finite (rnd (?d * r))"
    using fp by (simp add: fmul_def)
  show ?thesis
    by (simp only: relative_progress_def fs fd sum.case fm fa int_of_float_def pyfloat.case)
qed

section \<open>The iteration of a \<open>Monitor\<close>\<close>

lemma float_period_ge_one: "1 \<le> float_period f n"
  by (simp add: float_period_def)

lemma get_period_float_ok:
  assumes p: "mon_update_period m = FloatPeriod (Finite f)" and f: "0 < f" "f \<le> 1"
    and n: "n < 2 ^ 63"
  shows "get_period m n = Inr (Some (float_period f n))"
proof -
  let ?n = "rnd (of_nat n)"
  have fn: "float_of_int (int n) = Inr (Finite ?n)"
    using float_of_int_Finite[OF nat_lt_pow63[OF n]] by simp
  have "\<bar>of_nat n :: rat\<bar> \<le> 2 ^ 63" using n
    by (metis abs_of_nat less_imp_le of_nat_le_numeral_power_cancel_iff)
  then have nb: "\<bar>?n\<bar> \<le> 2 ^ 63" by (rule rnd_abs_le_pow)
  have "\<bar>f * ?n\<bar> = f * \<bar>?n\<bar>" using f by (simp add: abs_mult)
  also have "\<dots> \<le> 1 * \<bar>?n\<bar>" using f by (intro mult_right_mono) simp_all
  also have "\<dots> \<le> 2 ^ 63" using nb by simp
  finally have "fl (f * ?n) = Finite (rnd (f * ?n))" by (rule fl_Finite) simp
  then have fm: "fmul (Finite f) (Finite ?n) = Finite (rnd (f * ?n))"
    by (simp add: fmul_def)
  show ?thesis
    by (simp only: get_period_def p period.case fn sum.case fm int_of_float_def pyfloat.case
        float_period_def)
qed

lemma get_period_ok:
  assumes "valid_period (mon_update_period m)" "n < 2 ^ 63"
  shows "get_period m n = Inr (effective_period (mon_update_period m) n)"
proof (cases "mon_update_period m")
  case NoPeriod
  then show ?thesis by (simp add: get_period_def effective_period_def)
next
  case (IntPeriod k)
  then show ?thesis by (simp add: get_period_def effective_period_def)
next
  case (FloatPeriod a)
  then obtain f where a: "a = Finite f" and f: "0 < f" "f \<le> 1"
    using assms(1) by (cases a) (simp_all add: valid_period_def)
  have "get_period m n = Inr (Some (float_period f n))"
    using FloatPeriod a f assms(2) by (intro get_period_float_ok) simp_all
  then show ?thesis by (simp add: FloatPeriod a effective_period_def)
qed

lemma effective_period_pos:
  assumes "valid_period p" "effective_period p n = Some k"
  shows "1 \<le> k"
proof (cases p)
  case NoPeriod
  then show ?thesis using assms by (simp add: effective_period_def)
next
  case (IntPeriod j)
  then show ?thesis using assms by (simp add: effective_period_def valid_period_def)
next
  case (FloatPeriod a)
  then show ?thesis using assms float_period_ge_one
    by (cases a) (auto simp: effective_period_def valid_period_def)
qed

lemma period_hit_ok:
  assumes "valid_period p"
  shows "period_hit (effective_period p n) i =
     Inr (case effective_period p n of None \<Rightarrow> True | Some k \<Rightarrow> int i mod k = 0)"
proof (cases "effective_period p n")
  case None
  then show ?thesis by (simp add: period_hit_def)
next
  case (Some k)
  then have "1 \<le> k" using assms effective_period_pos by blast
  then show ?thesis using Some by (simp add: period_hit_def)
qed

lemma loop_body_ok:
  assumes v: "valid_period (mon_update_period m)" and r: "in_float_range m"
    and i: "i < monitor_len m"
  shows "loop_body m (monitor_len m) i = Inr (report_events m i)"
proof -
  have n: "monitor_len m < 2 ^ 63" and s: "\<bar>mon_start m\<bar> \<le> 2 ^ 1021"
    and e: "\<bar>mon_end m\<bar> \<le> 2 ^ 1021"
    using r by (simp_all add: in_float_range_def)
  have gp: "get_period m (monitor_len m) =
      Inr (effective_period (mon_update_period m) (monitor_len m))"
    using v n by (rule get_period_ok)
  have ph: "period_hit (effective_period (mon_update_period m) (monitor_len m)) i =
      Inr (reports_at m i)"
    using period_hit_ok[OF v] by (simp add: reports_at_def)
  have ro: "ratio_of i (monitor_len m) = Inr (Finite (float_ratio i (monitor_len m)))"
    using i n by (rule ratio_of_ok)
  have rb: "0 \<le> float_ratio i (monitor_len m)" "float_ratio i (monitor_len m) \<le> 1"
    using float_ratio_bounds[of i "monitor_len m"] i by simp_all
  have rp: "relative_progress m (Finite (float_ratio i (monitor_len m))) =
      Inr (float_progress (mon_start m) (mon_end m) i (monitor_len m))"
    using relative_progress_ok[OF s e rb] by (simp only: float_progress_def)
  show ?thesis
  proof (cases "reports_at m i")
    case True
    then show ?thesis
      by (simp add: loop_body_def gp ph ro rp report_events_def)
  next
    case False
    then show ?thesis
      by (simp add: loop_body_def gp ph report_events_def)
  qed
qed

lemma upt_shift: "[0..<Suc n] = 0 # map Suc [0..<n]"
  by (simp add: upt_conv_Cons map_Suc_upt del: upt_Suc)

lemma iter_from_ok:
  assumes "\<And>j. j < length vs \<Longrightarrow> loop_body m tot (i + j) = Inr (f (i + j))"
  shows "iter_from m tot i vs =
     (concat (map (\<lambda>j. f (i + j) @ [Yield (vs ! j)]) [0..<length vs]), None)"
  using assms
proof (induction vs arbitrary: i)
  case Nil
  show ?case by simp
next
  case (Cons v vs)
  have b: "loop_body m tot i = Inr (f i)" using Cons.prems[of 0] by simp
  have "\<And>j. j < length vs \<Longrightarrow> loop_body m tot (Suc i + j) = Inr (f (Suc i + j))"
    using Cons.prems[of "Suc _"] by simp
  then have ih: "iter_from m tot (Suc i) vs =
      (concat (map (\<lambda>j. f (Suc i + j) @ [Yield (vs ! j)]) [0..<length vs]), None)"
    by (rule Cons.IH)
  show ?case
    by (simp add: b ih upt_shift comp_def del: upt_Suc)
qed

lemma monitor_iter_ok:
  assumes "valid_period (mon_update_period m)" "in_float_range m"
  shows "monitor_iter m = (expected_trace m, None)"
proof -
  have "\<And>j. j < length (mon_iterable m) \<Longrightarrow>
      loop_body m (monitor_len m) (0 + j) = Inr (report_events m (0 + j))"
    using loop_body_ok[OF assms] by (simp add: monitor_len_def)
  then have "iter_from m (monitor_len m) 0 (mon_iterable m) =
     (concat (map (\<lambda>j. report_events m (0 + j) @ [Yield (mon_iterable m ! j)])
        [0..<length (mon_iterable m)]), None)"
    by (rule iter_from_ok)
  then show ?thesis by (simp add: monitor_iter_def expected_trace_def monitor_len_def)
qed

lemma yielded_append: "yielded (a @ b) = yielded a @ yielded b"
  by (induction a rule: yielded.induct) simp_all

lemma yielded_report_events: "yielded (report_events m i) = []"
  by (simp add: report_events_def)

lemma yielded_concat_reports:
  "yielded (concat (map (\<lambda>i. report_events m i @ [Yield (g i)]) is)) = map g is"
  by (induction "is") (simp_all add: yielded_append yielded_report_events)

lemma yielded_expected_trace: "yielded (expected_trace m) = mon_iterable m"
  by (simp add: expected_trace_def yielded_concat_reports monitor_len_def map_nth)

subsection \<open>Evaluating a rounding\<close>

lemma rhe_eq_I:
  assumes "of_int k - 1 / 2 < z" "z < of_int k + 1 / 2"
  shows "round_half_even z = k"
proof -
  have "round_half_even z \<le> k"
  proof (rule ccontr)
    assume "\<not> round_half_even z \<le> k"
    then have "k + 1 \<le> round_half_even z" by simp
    then have "(of_int (k + 1) :: rat) \<le> of_int (round_half_even z)" by (simp only: of_int_le_iff)
    with rhe_bounds(2)[of z] assms(2) show False by simp
  qed
  moreover have "k \<le> round_half_even z"
  proof (rule ccontr)
    assume "\<not> k \<le> round_half_even z"
    then have "round_half_even z \<le> k - 1" by simp
    then have "(of_int (round_half_even z) :: rat) \<le> of_int (k - 1)" by (simp only: of_int_le_iff)
    with rhe_bounds(1)[of z] assms(1) show False by simp
  qed
  ultimately show ?thesis by simp
qed

lemma rhe_tie:
  assumes "z = of_int k + 1 / 2"
  shows "round_half_even z = (if even k then k else k + 1)"
proof -
  have "\<lfloor>z\<rfloor> = k" unfolding assms by (rule floor_unique) simp_all
  then show ?thesis by (simp add: round_half_even_def assms)
qed

lemma powi_le_abs_nz:
  assumes "2 powi e \<le> \<bar>x :: rat\<bar>"
  shows "x \<noteq> 0"
proof
  assume "x = 0"
  with assms have "(2::rat) powi e \<le> 0" by simp
  with powi2_pos[of e] show False by linarith
qed

lemma rnd_eval:
  assumes "2 powi e \<le> \<bar>x\<bar>" "\<bar>x\<bar> < 2 powi (e + 1)"
    and "of_int k - 1 / 2 < x / 2 powi (max (e - 52) (- 1074))"
    and "x / 2 powi (max (e - 52) (- 1074)) < of_int k + 1 / 2"
    and "y = of_int k * 2 powi (max (e - 52) (- 1074))"
  shows "rnd x = y"
proof -
  have e: "ilog2 x = e" using assms(1,2) by (rule ilog2_unique)
  have nz: "x \<noteq> 0" using assms(1) by (rule powi_le_abs_nz)
  have "round_half_even (x / 2 powi (max (e - 52) (- 1074))) = k"
    using assms(3,4) by (rule rhe_eq_I)
  then show ?thesis using nz by (simp add: rnd_def quantum_def e assms(5))
qed

lemma rnd_eval_tie:
  assumes "2 powi e \<le> \<bar>x\<bar>" "\<bar>x\<bar> < 2 powi (e + 1)"
    and "x / 2 powi (max (e - 52) (- 1074)) = of_int k + 1 / 2"
    and "y = of_int (if even k then k else k + 1) * 2 powi (max (e - 52) (- 1074))"
  shows "rnd x = y"
proof -
  have e: "ilog2 x = e" using assms(1,2) by (rule ilog2_unique)
  have nz: "x \<noteq> 0" using assms(1) by (rule powi_le_abs_nz)
  have "round_half_even (x / 2 powi (max (e - 52) (- 1074))) = (if even k then k else k + 1)"
    using assms(3) by (rule rhe_tie)
  then show ?thesis using nz by (simp add: rnd_def quantum_def e assms(4))
qed

subsection \<open>Concrete roundings\<close>

lemma rnd_of_nat:
  assumes "n \<le> 2 ^ 53"
  shows "rnd (of_nat n) = of_nat n"
proof -
  have "\<bar>int n\<bar> \<le> 2 ^ 53" using assms by (simp flip: of_nat_le_iff)
  then have "rnd (of_int (int n)) = of_int (int n)" by (rule rnd_of_int)
  then show ?thesis by simp
qed

lemma rnd_small_numerals:
  "rnd 1 = 1" "rnd 2 = 2" "rnd 3 = 3" "rnd 5 = 5" "rnd 7 = 7" "rnd 9 = 9" "rnd 10 = 10"
  "rnd 20 = 20" "rnd 55 = 55" "rnd 90 = 90" "rnd 100 = 100"
  using rnd_of_int[of 1] rnd_of_int[of 2] rnd_of_int[of 3] rnd_of_int[of 5] rnd_of_int[of 7]
    rnd_of_int[of 9] rnd_of_int[of 10] rnd_of_int[of 20] rnd_of_int[of 55] rnd_of_int[of 90]
    rnd_of_int[of 100]
  by simp_all

lemma rnd_7_10: "rnd (7 / 10) = 3152519739159347 / 4503599627370496"
  by (rule rnd_eval[where e = "- 1" and k = "6305039478318694"]) simp_all

lemma rnd_90_r7: "rnd (141863388262170615 / 2251799813685248) = 8866461766385663 / 140737488355328"
  by (rule rnd_eval[where e = "5" and k = "8866461766385663"]) simp_all

lemma rnd_p7: "rnd (8866461766385663 / 140737488355328) = 8866461766385663 / 140737488355328"
  by (rule rnd_eval[where e = "5" and k = "8866461766385663"]) simp_all

lemma rnd_9_10: "rnd (9 / 10) = 8106479329266893 / 9007199254740992"
  by (rule rnd_eval[where e = "- 1" and k = "8106479329266893"]) simp_all

lemma rnd_55_r9: "rnd (445856363109679115 / 9007199254740992) = 99 / 2"
  by (rule rnd_eval[where e = "5" and k = "6966505673588736"]) simp_all

lemma rnd_20_p9: "rnd (139 / 2) = 139 / 2"
  by (rule rnd_eval[where e = "6" and k = "4890627720347648"]) simp_all

lemma rnd_3_5: "rnd (3 / 5) = 5404319552844595 / 9007199254740992"
  by (rule rnd_eval[where e = "- 1" and k = "5404319552844595"]) simp_all

lemma rnd_f5: "rnd (27021597764222975 / 9007199254740992) = 3"
  by (rule rnd_eval[where e = "1" and k = "6755399441055744"]) simp_all

lemma rnd_29_100: "rnd (29 / 100) = 5224175567749775 / 18014398509481984"
  by (rule rnd_eval[where e = "- 2" and k = "5224175567749775"]) simp_all

lemma rnd_g100: "rnd (130604389193744375 / 4503599627370496) = 8162774324609023 / 281474976710656"
  by (rule rnd_eval[where e = "4" and k = "8162774324609023"]) simp_all

lemma rnd_1_20: "rnd (1 / 20) = 3602879701896397 / 72057594037927936"
  by (rule rnd_eval[where e = "- 5" and k = "7205759403792794"]) simp_all

lemma rnd_h20: "rnd (18014398509481985 / 18014398509481984) = 1"
  by (rule rnd_eval[where e = "0" and k = "4503599627370496"]) simp_all

lemma rnd_100_f: "rnd (135107988821114875 / 2251799813685248) = 60"
  by (rule rnd_eval[where e = "5" and k = "8444249301319680"]) simp_all

lemma rnd_2_r9: "rnd (8106479329266893 / 4503599627370496) = 8106479329266893 / 4503599627370496"
  by (rule rnd_eval[where e = "0" and k = "8106479329266893"]) simp_all

lemma rnd_big: "rnd (40564819207303348954373831838925 / 4503599627370496) = 9007199254740994"
  by (rule rnd_eval[where e = "53" and k = "4503599627370497"]) simp_all


lemma trunc_eq_I:
  assumes "0 \<le> y" "of_int k \<le> y" "y < of_int k + 1"
  shows "trunc y = k"
proof -
  have "\<lfloor>y\<rfloor> = k" using assms(2,3) by (rule floor_unique)
  then show ?thesis using assms(1) by (simp add: trunc_def)
qed

lemma float_progress_0_90_0_10: "float_progress 0 90 0 10 = 0"
  by (simp add: float_progress_def float_ratio_def rnd_zero rnd_small_numerals trunc_def)

lemma float_progress_0_90_7_10: "float_progress 0 90 7 10 = 62"
proof -
  have "float_progress 0 90 7 10 = trunc (8866461766385663 / 140737488355328)"
    by (simp add: float_progress_def float_ratio_def rnd_zero rnd_small_numerals
        rnd_7_10 rnd_90_r7 rnd_p7)
  also have "\<dots> = 62" by (rule trunc_eq_I) simp_all
  finally show ?thesis .
qed

lemma float_progress_20_75_0_10: "float_progress 20 75 0 10 = 20"
  by (simp add: float_progress_def float_ratio_def rnd_zero rnd_small_numerals trunc_def)

lemma float_progress_20_75_9_10: "float_progress 20 75 9 10 = 69"
proof -
  have "float_progress 20 75 9 10 = trunc (139 / 2)"
    by (simp add: float_progress_def float_ratio_def rnd_zero rnd_small_numerals
        rnd_9_10 rnd_55_r9 rnd_20_p9)
  also have "\<dots> = 69" by (rule trunc_eq_I) simp_all
  finally show ?thesis .
qed

lemma exact_progress_0_90_7_10: "exact_progress 0 90 7 10 = 63"
  by (simp add: exact_progress_def trunc_def)

lemma str_nat_digits:
  "str_nat 1 = ''1''" "str_nat 8 = ''8''" "str_nat 10 = ''10''" "str_nat 4 = ''4''" "str_nat 5 = ''5''"
  by (simp_all add: str_nat.simps digit_char_def)

lemma str_nat_Suc_0: "str_nat (Suc 0) = ''1''"
  by (simp add: str_nat.simps digit_char_def)

lemma upt_10: "[0..<10] = [0, 1, 2, 3, 4, 5, 6, 7, 8, 9]"
  by code_simp

lemma rnd_h3: "rnd (10808639105689191 / 72057594037927936) = 1351079888211149 / 9007199254740992"
  by (rule rnd_eval_tie[where e = "- 3" and k = "5404319552844595"]) simp_all

lemma rnd_60: "rnd 60 = 60"
  using rnd_of_int[of 60] by simp

lemma trunc_nonneg: "0 \<le> y \<Longrightarrow> trunc y = \<lfloor>y\<rfloor>"
  by (simp add: trunc_def)

lemma float_period_1_20_20: "float_period (rnd (1 / 20)) 20 = 1"
  by (simp add: float_period_def rnd_small_numerals rnd_1_20 rnd_h20 trunc_def)

lemma float_period_1_20_3: "float_period (rnd (1 / 20)) 3 = 1"
proof -
  have "trunc (1351079888211149 / 9007199254740992) = 0"
    by (rule trunc_eq_I) simp_all
  then show ?thesis
    by (simp add: float_period_def rnd_small_numerals rnd_1_20 rnd_h3)
qed

lemma float_period_3_5_5: "float_period (5404319552844595 / 9007199254740992) 5 = 3"
  by (simp add: float_period_def rnd_small_numerals rnd_f5 trunc_def)

lemma float_period_29_100_100: "float_period (5224175567749775 / 18014398509481984) 100 = 28"
proof -
  have "trunc (8162774324609023 / 281474976710656) = 28"
    by (rule trunc_eq_I) simp_all
  then show ?thesis
    by (simp add: float_period_def rnd_small_numerals rnd_g100)
qed

lemma exact_period_3_5_5: "exact_period (5404319552844595 / 9007199254740992) 5 = 2"
proof -
  have "\<lfloor>27021597764222975 / 9007199254740992 :: rat\<rfloor> = 2"
    by (rule floor_unique) simp_all
  then show ?thesis by (simp add: exact_period_def)
qed

lemma exact_period_29_100_100: "exact_period (29 / 100) 100 = 29"
  by (simp add: exact_period_def)

lemma fl_3_5: "fl (3 / 5) = Finite (5404319552844595 / 9007199254740992)"
  by (simp add: fl_def rnd_3_5)

lemma fl_29_100: "fl (29 / 100) = Finite (5224175567749775 / 18014398509481984)"
  by (simp add: fl_def rnd_29_100)

lemma float_progress_0_100_0_5: "float_progress 0 100 0 5 = 0"
  by (simp add: float_progress_def float_ratio_def rnd_zero rnd_small_numerals trunc_def)

lemma float_progress_0_100_3_5: "float_progress 0 100 3 5 = 60"
  by (simp add: float_progress_def float_ratio_def rnd_zero rnd_small_numerals trunc_def
      rnd_3_5 rnd_100_f rnd_60)

lemma upt_5: "[0..<5] = [0, 1, 2, 3, 4]"
  by code_simp

subsection \<open>The progress values are monotone and bounded\<close>

lemma pow2_cover:
  assumes "0 < (n::nat)"
  shows "\<exists>k. n \<le> 2 ^ k \<and> 2 ^ k \<le> 2 * n"
proof -
  obtain j where j: "2 ^ j \<le> n" "n < 2 ^ (j + 1)"
    using ex_power_ivl1[of 2 n] assms by auto
  have "n \<le> 2 ^ (j + 1)" using j(2) by simp
  moreover have "(2::nat) ^ (j + 1) \<le> 2 * n" using j(1) by simp
  ultimately show ?thesis by blast
qed

lemma rnd_exact_div_pow:
  assumes "\<bar>m\<bar> \<le> 2 ^ 53" "k \<le> 1074"
  shows "rnd (of_int m / 2 ^ k) = of_int m / 2 ^ k"
proof -
  have "(2::rat) powi (- int k) = 1 / 2 ^ k"
    by (simp add: power_int_minus_divide power_int_of_nat)
  moreover have "rnd (of_int m * 2 powi (- int k)) = of_int m * 2 powi (- int k)"
    using assms by (intro rnd_exact) simp_all
  ultimately show ?thesis by simp
qed

lemma trunc_mono:
  assumes "x \<le> y"
  shows "trunc x \<le> trunc y"
proof -
  consider "0 \<le> x" | "x < 0" "0 \<le> y" | "y < 0" by linarith
  then show ?thesis
  proof cases
    case 1
    then have "0 \<le> y" using assms by simp
    then show ?thesis using 1 assms by (simp add: trunc_def floor_mono)
  next
    case 2
    have "\<lceil>x\<rceil> \<le> 0" using 2(1) by (simp add: ceiling_le_zero)
    moreover have "0 \<le> \<lfloor>y\<rfloor>" using 2(2) by simp
    ultimately have "\<lceil>x\<rceil> \<le> \<lfloor>y\<rfloor>" by linarith
    then show ?thesis using 2 by (simp add: trunc_def)
  next
    case 3
    then have "x < 0" using assms by simp
    then show ?thesis using 3 assms by (simp add: trunc_def ceiling_mono)
  qed
qed

lemma float_ratio_mono:
  assumes "i \<le> j" "0 < n"
  shows "float_ratio i n \<le> float_ratio j n"
proof -
  have n1: "1 \<le> rnd (of_nat n)" using assms(2) by (rule rnd_of_nat_ge_one)
  have "rnd (of_nat i) \<le> rnd (of_nat j)" using assms(1) by (intro rnd_mono) simp
  then have "rnd (of_nat i) / rnd (of_nat n) \<le> rnd (of_nat j) / rnd (of_nat n)"
    using n1 by (simp add: divide_right_mono)
  then show ?thesis unfolding float_ratio_def by (rule rnd_mono)
qed

lemma float_progress_mono:
  assumes "s \<le> e" "i \<le> j" "0 < n"
  shows "float_progress s e i n \<le> float_progress s e j n"
proof -
  have "0 \<le> rnd (of_int (e - s))" using assms(1) by (intro rnd_nonneg) simp
  then have "rnd (of_int (e - s)) * float_ratio i n \<le> rnd (of_int (e - s)) * float_ratio j n"
    using float_ratio_mono[OF assms(2,3)] by (rule mult_left_mono[rotated])
  then have "rnd (rnd (of_int (e - s)) * float_ratio i n)
      \<le> rnd (rnd (of_int (e - s)) * float_ratio j n)" by (rule rnd_mono)
  then have "rnd (of_int s) + rnd (rnd (of_int (e - s)) * float_ratio i n)
      \<le> rnd (of_int s) + rnd (rnd (of_int (e - s)) * float_ratio j n)" by simp
  then have "rnd (rnd (of_int s) + rnd (rnd (of_int (e - s)) * float_ratio i n))
      \<le> rnd (rnd (of_int s) + rnd (rnd (of_int (e - s)) * float_ratio j n))" by (rule rnd_mono)
  then show ?thesis unfolding float_progress_def by (rule trunc_mono)
qed

lemma ratio_le_cover:
  fixes I N K :: rat
  assumes "I + 1 \<le> N" "N \<le> K" "0 < N"
  shows "I / N \<le> (K - 1) / K"
proof -
  have K: "0 < K" using assms by linarith
  have "I * K \<le> (N - 1) * K" using assms(1) K by (intro mult_right_mono) simp_all
  also have "\<dots> = K * N - K" by (simp add: algebra_simps)
  also have "\<dots> \<le> K * N - N" using assms(2) by simp
  also have "\<dots> = (K - 1) * N" by (simp add: algebra_simps)
  finally show ?thesis using K assms(3) by (simp add: field_simps)
qed

lemma float_progress_bounds:
  assumes s0: "0 \<le> s" and se: "s < e" and i: "i < n" and b: "e * int n \<le> 2 ^ 52"
  shows "s \<le> float_progress s e i n \<and> float_progress s e i n < e"
proof -
  have n1: "1 \<le> int n" using i by simp
  have e1: "1 \<le> e" using s0 se by simp
  have "e * 1 \<le> e * int n" using n1 e1 by (intro mult_left_mono) simp_all
  then have e_le: "e \<le> 2 ^ 52" using b by simp
  have "1 * int n \<le> e * int n" using n1 e1 by (intro mult_right_mono) simp_all
  then have n_le: "int n \<le> 2 ^ 52" using b by simp
  then have n_le': "n \<le> 2 ^ 52" by (simp flip: of_nat_le_iff)
  have rs: "rnd (of_int s) = of_int s" using s0 se e_le by (intro rnd_of_int) simp
  have rd: "rnd (of_int (e - s)) = of_int (e - s)" using s0 se e_le by (intro rnd_of_int) simp
  have ri: "rnd (of_nat i) = of_nat i" using i n_le' by (intro rnd_of_nat) simp
  have rn: "rnd (of_nat n) = of_nat n" using n_le' by (intro rnd_of_nat) simp
  obtain k where k: "n \<le> 2 ^ k" "2 ^ k \<le> 2 * n" using pow2_cover[of n] i by auto
  have k2: "(2::nat) ^ k \<le> 2 ^ 53" using k(2) n_le' by simp
  have k53: "k \<le> 53" by (rule power_le_imp_le_exp[of 2]) (simp, fact k2)
  have "int (2 ^ k) \<le> int (2 * n)" using k(2) by (simp only: of_nat_le_iff)
  then have ik: "(2::int) ^ k \<le> 2 * int n" by simp
  have "e * 2 ^ k \<le> e * (2 * int n)" using ik e1 by (intro mult_left_mono) simp_all
  then have ek: "e * 2 ^ k \<le> 2 ^ 53" using b by simp
  define K :: rat where "K = 2 ^ k"
  have K1: "1 \<le> K" by (simp add: K_def)
  define r where "r = float_ratio i n"
  define D :: rat where "D = of_int (e - s)"
  define S :: rat where "S = of_int s"
  define E :: rat where "E = of_int e"
  have D0: "0 < D" using se by (simp add: D_def)
  have SDE: "S + D = E" by (simp add: S_def D_def E_def)
  have S0: "0 \<le> S" using s0 by (simp add: S_def)
  txt \<open>The ratio stays below \<open>1 - 2^-k\<close>, which is a float.\<close>
  have "(of_nat i :: rat) + 1 \<le> of_nat n" using i by (simp flip: of_nat_Suc)
  moreover have "(of_nat n :: rat) \<le> K" unfolding K_def using k(1)
    by (metis of_nat_le_iff of_nat_numeral of_nat_power)
  moreover have "(0::rat) < of_nat n" using i by simp
  ultimately have q: "of_nat i / of_nat n \<le> (K - 1) / K" by (rule ratio_le_cover)
  have "\<bar>2 ^ k - 1 :: int\<bar> \<le> 2 ^ 53"
  proof -
    have "(2::int) ^ k \<le> 2 ^ 53" using k53 by (intro power_increasing) simp_all
    moreover have "(1::int) \<le> 2 ^ k" by simp
    ultimately show ?thesis by linarith
  qed
  then have "rnd (of_int (2 ^ k - 1) / 2 ^ k) = of_int (2 ^ k - 1) / 2 ^ k"
    using k53 by (intro rnd_exact_div_pow) simp_all
  then have rc: "rnd ((K - 1) / K) = (K - 1) / K" by (simp add: K_def)
  have "r = rnd (of_nat i / of_nat n)" by (simp add: r_def float_ratio_def ri rn)
  also have "\<dots> \<le> rnd ((K - 1) / K)" using q by (rule rnd_mono)
  finally have r_le: "r \<le> (K - 1) / K" by (simp only: rc)
  have r0: "0 \<le> r" unfolding r_def using float_ratio_bounds(1)[of i n] i by simp
  txt \<open>So does the product, by a multiple of \<open>2^-k\<close> that is a float.\<close>
  have m1: "\<bar>(e - s) * (2 ^ k - 1)\<bar> \<le> 2 ^ 53"
  proof -
    have "0 \<le> (e - s) * (2 ^ k - 1)" using se by simp
    moreover have "(e - s) * (2 ^ k - 1) \<le> e * 2 ^ k"
      using s0 se by (intro mult_mono) simp_all
    ultimately show ?thesis using ek by linarith
  qed
  have "rnd (of_int ((e - s) * (2 ^ k - 1)) / 2 ^ k) = of_int ((e - s) * (2 ^ k - 1)) / 2 ^ k"
    using m1 k53 by (intro rnd_exact_div_pow) simp_all
  then have rp: "rnd (D * ((K - 1) / K)) = D * ((K - 1) / K)" by (simp add: K_def D_def)
  have "D * r \<le> D * ((K - 1) / K)" using r_le D0 by (intro mult_left_mono) simp_all
  then have "rnd (D * r) \<le> rnd (D * ((K - 1) / K))" by (rule rnd_mono)
  then have p_le: "rnd (D * r) \<le> D * ((K - 1) / K)" by (simp only: rp)
  have p0: "0 \<le> rnd (D * r)" using D0 r0 by (intro rnd_nonneg) simp
  txt \<open>And the sum stays below \<open>end - (end - start) * 2^-k\<close>, again a float.\<close>
  have m2: "\<bar>e * 2 ^ k - (e - s)\<bar> \<le> 2 ^ 53"
  proof -
    have "e - s \<le> e * 1" using s0 by simp
    also have "\<dots> \<le> e * 2 ^ k" using e1 by (intro mult_left_mono) simp_all
    finally have "0 \<le> e * 2 ^ k - (e - s)" by simp
    moreover have "e * 2 ^ k - (e - s) \<le> e * 2 ^ k" using se by simp
    ultimately show ?thesis using ek by linarith
  qed
  have "rnd (of_int (e * 2 ^ k - (e - s)) / 2 ^ k) = of_int (e * 2 ^ k - (e - s)) / 2 ^ k"
    using m2 k53 by (intro rnd_exact_div_pow) simp_all
  moreover have "of_int (e * 2 ^ k - (e - s)) / 2 ^ k = E - D / K"
    by (simp add: E_def D_def K_def field_simps)
  ultimately have ru: "rnd (E - D / K) = E - D / K" by simp
  have "S + D * ((K - 1) / K) = (S + D) - D / K"
    using K1 by (simp add: field_simps)
  then have "S + D * ((K - 1) / K) = E - D / K" by (simp only: SDE)
  then have "S + rnd (D * r) \<le> E - D / K" using p_le by linarith
  then have "rnd (S + rnd (D * r)) \<le> rnd (E - D / K)" by (rule rnd_mono)
  then have y_le: "rnd (S + rnd (D * r)) \<le> E - D / K" by (simp only: ru)
  have "0 < D / K" using D0 K1 by simp
  then have y_lt: "rnd (S + rnd (D * r)) < E" using y_le by linarith
  have "rnd S \<le> rnd (S + rnd (D * r))" using p0 by (intro rnd_mono) simp
  then have y_ge: "S \<le> rnd (S + rnd (D * r))" by (simp add: S_def rs)
  have fp: "float_progress s e i n = trunc (rnd (S + rnd (D * r)))"
    by (simp only: float_progress_def rs rd S_def D_def r_def)
  have "0 \<le> rnd (S + rnd (D * r))" using y_ge S0 by linarith
  then have tr: "trunc (rnd (S + rnd (D * r))) = \<lfloor>rnd (S + rnd (D * r))\<rfloor>"
    by (simp add: trunc_def)
  have "s \<le> \<lfloor>rnd (S + rnd (D * r))\<rfloor>" using y_ge by (simp add: le_floor_iff S_def)
  moreover have "\<lfloor>rnd (S + rnd (D * r))\<rfloor> < e" using y_lt by (simp add: floor_less_iff E_def)
  ultimately show ?thesis by (simp add: fp tr)
qed

lemma updates_append: "updates (a @ b) = updates a @ updates b"
  by (induction a rule: updates.induct) simp_all

lemma updates_concat_reports:
  "updates (concat (map (\<lambda>i. report_events m i @ [Yield (g i)]) is)) =
     map (\<lambda>i. (float_progress (mon_start m) (mon_end m) i (monitor_len m),
                format_status (mon_prefix m) (i + 1) (monitor_len m)))
       (filter (reports_at m) is)"
  by (induction "is") (simp_all add: updates_append report_events_def)

lemma updates_expected_trace:
  "map fst (updates (expected_trace m)) =
     map (\<lambda>i. float_progress (mon_start m) (mon_end m) i (monitor_len m))
       (filter (reports_at m) [0..<monitor_len m])"
  by (simp add: expected_trace_def updates_concat_reports comp_def)

lemma sorted_progress:
  assumes "s \<le> e"
  shows "sorted (map (\<lambda>i. float_progress s e i n) (filter P [0..<n]))"
proof -
  have "sorted_wrt (\<lambda>i j. float_progress s e i n \<le> float_progress s e j n) [0..<n]"
  proof (rule sorted_wrt_mono_rel[of _ "(<)"])
    fix i j
    assume "i \<in> set [0..<n]" "j \<in> set [0..<n]" "i < j"
    then show "float_progress s e i n \<le> float_progress s e j n"
      using assms by (intro float_progress_mono) simp_all
  qed simp
  then have "sorted_wrt (\<lambda>i j. float_progress s e i n \<le> float_progress s e j n)
      (filter P [0..<n])" by (rule sorted_wrt_filter)
  then show ?thesis by (simp add: sorted_map)
qed

lemma rnd_pow53: "rnd 9007199254740992 = 9007199254740992"
  using rnd_of_int[of 9007199254740992] by simp

lemma float_progress_big_0: "float_progress 9007199254740992 9007199254740994 0 10 = 9007199254740992"
  by (simp add: float_progress_def float_ratio_def rnd_zero rnd_small_numerals rnd_pow53 trunc_def)

lemma float_progress_big_9: "float_progress 9007199254740992 9007199254740994 9 10 = 9007199254740994"
  by (simp add: float_progress_def float_ratio_def rnd_zero rnd_small_numerals rnd_pow53 trunc_def
      rnd_9_10 rnd_2_r9 rnd_big)

section \<open>Properties of \<open>Monitor\<close>\<close>

lemma reports_at_zero:
  "reports_at m 0"
  by (simp add: reports_at_def split: option.split)

lemma expected_trace_Cons:
  assumes "mon_iterable m = x # xs"
  shows "\<exists>tr. expected_trace m =
     Update (float_progress (mon_start m) (mon_end m) 0 (monitor_len m))
       (format_status (mon_prefix m) 1 (monitor_len m)) # Yield x # tr"
proof -
  have n: "monitor_len m = Suc (length xs)" using assms by (simp add: monitor_len_def)
  show ?thesis
    unfolding expected_trace_def n upt_shift
    by (simp add: report_events_def reports_at_zero assms n del: upt_Suc)
qed

lemma float_of_int_zero: "float_of_int 0 = Inr (Finite 0)"
  by (simp add: float_of_int_def fl_def rnd_def)

lemma get_period_float_zero:
  "get_period (m\<lparr>mon_update_period := FloatPeriod (Finite f)\<rparr>) 0 = Inr (Some 1)"
  by (simp add: get_period_def float_of_int_zero fmul_def fl_def rnd_def int_of_float_def
      trunc_def)

text \<open>
  C1: for every list, and every period that is absent, an integer \<open>P \<ge> 1\<close> or a
  float in \<open>(0, 1]\<close>, the iteration ends without an exception and the elements it
  yields are exactly the elements of the source, in their order (the bounds being
  within the range of binary64, and the list one that CPython can hold).
\<close>

theorem monitor_yields_source:
  assumes "valid_period (mon_update_period m)" and "in_float_range m"
  shows "snd (monitor_iter m) = None \<and> yielded (fst (monitor_iter m)) = mon_iterable m"
  using monitor_iter_ok[OF assms] by (simp add: yielded_expected_trace)

theorem monitor_yields_source_witness:
  "valid_period (FloatPeriod (Finite (1 / 4)))
   \<and> in_float_range \<lparr>mon_start = 20, mon_end = 75,
        mon_update_period = FloatPeriod (Finite (1 / 4)),
        mon_iterable = [''a'', ''b'', ''c''], mon_prefix = Some ''Apply''\<rparr>
   \<and> snd (monitor_iter \<lparr>mon_start = 20, mon_end = 75,
        mon_update_period = FloatPeriod (Finite (1 / 4)),
        mon_iterable = [''a'', ''b'', ''c''], mon_prefix = Some ''Apply''\<rparr>) = None
   \<and> yielded (fst (monitor_iter \<lparr>mon_start = 20, mon_end = 75,
        mon_update_period = FloatPeriod (Finite (1 / 4)),
        mon_iterable = [''a'', ''b'', ''c''], mon_prefix = Some ''Apply''\<rparr>)) = [''a'', ''b'', ''c'']"
proof -
  let ?m = "\<lparr>mon_start = 20, mon_end = 75,
        mon_update_period = FloatPeriod (Finite (1 / 4)),
        mon_iterable = [''a'', ''b'', ''c''], mon_prefix = Some ''Apply''\<rparr>"
  have v: "valid_period (mon_update_period ?m)" by (simp add: valid_period_def)
  have r: "in_float_range ?m" by (simp add: in_float_range_def monitor_len_def)
  from monitor_yields_source[OF v r] v r show ?thesis by simp
qed

text \<open>
  C6: for a source that is not empty and a valid period, the trace of the iteration
  begins with exactly one call of \<open>job.update\<close>, labelled with index 1 of the total,
  followed by the first element.
\<close>

theorem first_element_reported:
  assumes "valid_period (mon_update_period m)" and "in_float_range m"
    and "mon_iterable m = x # xs"
  shows "\<exists>p tr. fst (monitor_iter m) =
     Update p (format_status (mon_prefix m) 1 (monitor_len m)) # Yield x # tr"
  using monitor_iter_ok[OF assms(1,2)] expected_trace_Cons[OF assms(3)] by auto

theorem first_element_reported_witness:
  "valid_period (IntPeriod 2)
   \<and> in_float_range \<lparr>mon_start = 0, mon_end = 100, mon_update_period = IntPeriod 2,
        mon_iterable = [''a'', ''b'', ''c''], mon_prefix = None\<rparr>
   \<and> (\<exists>p tr. fst (monitor_iter \<lparr>mon_start = 0, mon_end = 100, mon_update_period = IntPeriod 2,
        mon_iterable = [''a'', ''b'', ''c''], mon_prefix = None\<rparr>) =
      Update p (format_status None 1 3) # Yield ''a'' # tr)"
proof -
  let ?m = "\<lparr>mon_start = 0, mon_end = 100, mon_update_period = IntPeriod 2,
        mon_iterable = [''a'', ''b'', ''c''], mon_prefix = None\<rparr>"
  have v: "valid_period (mon_update_period ?m)" by (simp add: valid_period_def)
  have r: "in_float_range ?m" by (simp add: in_float_range_def monitor_len_def)
  have c: "mon_iterable ?m = ''a'' # [''b'', ''c'']" by simp
  from first_element_reported[OF v r c] v r show ?thesis by (simp add: monitor_len_def numeral_3_eq_3)
qed

text \<open>
  C7: an empty source yields nothing and reports nothing, whatever the period is
  (also an integer period 0), and the iteration ends without an exception: the loop
  body, with its modulo and its division, is never run.  Were \<open>_get_period\<close> called
  with a total of 0 and a finite float period, the clamp \<open>max(..., 1)\<close> would make
  it return 1.
\<close>

theorem empty_source_silent:
  "monitor_iter (m\<lparr>mon_iterable := []\<rparr>) = ([], None)
   \<and> get_period (m\<lparr>mon_update_period := FloatPeriod (Finite f)\<rparr>) 0 = Inr (Some 1)"
  by (simp add: monitor_iter_def get_period_float_zero)

text \<open>
  C2, as amended: for a valid period and bounds in range, the trace of the iteration
  is, for each index \<open>i\<close> in order, one call of \<open>job.update\<close> when \<open>i\<close> is a
  reporting index and none otherwise, immediately followed by the element of index
  \<open>i\<close>.  The call carries the label \<open>"<prefix> (<i+1>/<N>)."\<close> and the progress
  \<open>start + (end - start) * (i / N)\<close> evaluated in binary64 arithmetic (every integer
  converted to the nearest float; the quotient, the product and the sum each rounded
  to the nearest float, ties to even) and then truncated toward zero.  For
  \<open>start = 20\<close>, \<open>end = 75\<close>, \<open>N = 10\<close> the progress is 20 at \<open>i = 0\<close> and 69 at
  \<open>i = 9\<close>.
\<close>

theorem progress_reports:
  assumes "valid_period (mon_update_period m)" and "in_float_range m"
  shows "monitor_iter m =
     (concat (map (\<lambda>i.
         (if reports_at m i
          then [Update (float_progress (mon_start m) (mon_end m) i (monitor_len m))
                  (format_status (mon_prefix m) (i + 1) (monitor_len m))]
          else []) @ [Yield (mon_iterable m ! i)]) [0..<monitor_len m]), None)
     \<and> float_progress 20 75 0 10 = 20 \<and> float_progress 20 75 9 10 = 69"
  using monitor_iter_ok[OF assms]
  by (simp add: expected_trace_def report_events_def float_progress_20_75_0_10
      float_progress_20_75_9_10)

theorem progress_reports_witness:
  "valid_period NoPeriod
   \<and> in_float_range \<lparr>mon_start = 20, mon_end = 75, mon_update_period = NoPeriod,
        mon_iterable = [''a'', ''b''], mon_prefix = None\<rparr>
   \<and> monitor_iter \<lparr>mon_start = 20, mon_end = 75, mon_update_period = NoPeriod,
        mon_iterable = [''a'', ''b''], mon_prefix = None\<rparr> =
     ([Update (float_progress 20 75 0 2) (format_status None 1 2), Yield ''a'',
       Update (float_progress 20 75 1 2) (format_status None 2 2), Yield ''b''], None)"
proof -
  let ?m = "\<lparr>mon_start = 20, mon_end = 75, mon_update_period = NoPeriod,
        mon_iterable = [''a'', ''b''], mon_prefix = None\<rparr>"
  have v: "valid_period (mon_update_period ?m)" by (simp add: valid_period_def)
  have r: "in_float_range ?m" by (simp add: in_float_range_def monitor_len_def)
  have n: "monitor_len ?m = 2" by (simp add: monitor_len_def)
  have u: "[0..<2] = [0, 1]" by code_simp
  have ra: "reports_at ?m i" for i by (simp add: reports_at_def effective_period_def)
  from progress_reports[OF v r] v r show ?thesis
    unfolding n u by (simp add: ra numeral_2_eq_2)
qed

text \<open>
  The claim C2 as stated, with the formula in exact arithmetic, fails: for
  \<open>start = 0\<close>, \<open>end = 90\<close>, \<open>N = 10\<close> the report at index 7 carries the progress 62
  (\<open>7 / 10.0\<close> is a float below \<open>7/10\<close>, and \<open>90\<close> times it rounds to
  \<open>62.99999999999999\<close>), while \<open>0 + 90 * (7 / 10)\<close> is 63.
\<close>

theorem progress_not_exact:
  "monitor_iter \<lparr>mon_start = 0, mon_end = 90, mon_update_period = IntPeriod 7,
      mon_iterable = [10, 11, 12, 13, 14, 15, 16, 17, 18, 19 :: int], mon_prefix = Some ''p''\<rparr>
   = ([Update 0 ''p (1/10).'', Yield 10, Yield 11, Yield 12, Yield 13, Yield 14, Yield 15, Yield 16,
       Update 62 ''p (8/10).'', Yield 17, Yield 18, Yield 19], None)
   \<and> exact_progress 0 90 7 10 = 63"
proof -
  let ?m = "\<lparr>mon_start = 0, mon_end = 90, mon_update_period = IntPeriod 7,
      mon_iterable = [10, 11, 12, 13, 14, 15, 16, 17, 18, 19 :: int], mon_prefix = Some ''p''\<rparr>"
  have v: "valid_period (mon_update_period ?m)" by (simp add: valid_period_def)
  have r: "in_float_range ?m" by (simp add: in_float_range_def monitor_len_def)
  have n: "monitor_len ?m = 10" by (simp add: monitor_len_def)
  have re: "report_events ?m i =
      (if int i mod 7 = 0
       then [Update (float_progress 0 90 i 10) (format_status (Some ''p'') (i + 1) 10)]
       else [])" for i
    by (simp add: report_events_def reports_at_def effective_period_def n)
  have "expected_trace ?m =
      [Update 0 ''p (1/10).'', Yield 10, Yield 11, Yield 12, Yield 13, Yield 14, Yield 15, Yield 16,
       Update 62 ''p (8/10).'', Yield 17, Yield 18, Yield 19]"
    unfolding expected_trace_def n upt_10
    by (simp add: re float_progress_0_90_0_10 float_progress_0_90_7_10 format_status_def
        str_prefix_def str_nat_digits str_nat_Suc_0)
  with monitor_iter_ok[OF v r] exact_progress_0_90_7_10 show ?thesis by simp
qed

text \<open>
  C3, as amended: for a float period \<open>F\<close> in \<open>(0, 1]\<close> and a source of length
  \<open>N > 0\<close>, the period \<open>_get_period\<close> returns is \<open>max(floor(F * N), 1)\<close> with the
  product evaluated in binary64 arithmetic (\<open>N\<close> converted to a float, the product
  rounded to the nearest float before the floor), and a report is made at index \<open>i\<close>
  exactly when \<open>i mod\<close> that period is 0.  For \<open>N = 20\<close> and for \<open>N = 3\<close>, the float
  \<open>0.05\<close> gives the period 1.
\<close>

theorem float_period_reports:
  assumes "mon_update_period m = FloatPeriod (Finite f)" and "0 < f" and "f \<le> 1"
    and "in_float_range m" and "i < monitor_len m"
  shows "get_period m (monitor_len m) = Inr (Some (float_period f (monitor_len m)))
     \<and> float_period f (monitor_len m) = max \<lfloor>rnd (f * rnd (of_nat (monitor_len m)))\<rfloor> 1
     \<and> loop_body m (monitor_len m) i =
         Inr (if int i mod float_period f (monitor_len m) = 0
              then [Update (float_progress (mon_start m) (mon_end m) i (monitor_len m))
                      (format_status (mon_prefix m) (i + 1) (monitor_len m))]
              else [])
     \<and> float_period (rnd (1 / 20)) 20 = 1 \<and> float_period (rnd (1 / 20)) 3 = 1"
proof -
  have n: "monitor_len m < 2 ^ 63" using assms(4) by (simp add: in_float_range_def)
  have v: "valid_period (mon_update_period m)" using assms(1-3) by (simp add: valid_period_def)
  have 1: "get_period m (monitor_len m) = Inr (Some (float_period f (monitor_len m)))"
    using assms(1-3) n by (rule get_period_float_ok)
  have "0 \<le> f * rnd (of_nat (monitor_len m))"
    using assms(2) rnd_nonneg[of "of_nat (monitor_len m)"] by simp
  then have "0 \<le> rnd (f * rnd (of_nat (monitor_len m)))" by (rule rnd_nonneg)
  then have 2: "float_period f (monitor_len m) = max \<lfloor>rnd (f * rnd (of_nat (monitor_len m)))\<rfloor> 1"
    by (simp add: float_period_def trunc_nonneg)
  have 3: "loop_body m (monitor_len m) i =
         Inr (if int i mod float_period f (monitor_len m) = 0
              then [Update (float_progress (mon_start m) (mon_end m) i (monitor_len m))
                      (format_status (mon_prefix m) (i + 1) (monitor_len m))]
              else [])"
    using loop_body_ok[OF v assms(4,5)]
    by (simp add: report_events_def reports_at_def effective_period_def assms(1))
  show ?thesis using 1 2 3 float_period_1_20_20 float_period_1_20_3 by simp
qed

theorem float_period_reports_witness:
  "0 < (1 / 4 :: rat) \<and> (1 / 4 :: rat) \<le> 1
   \<and> in_float_range \<lparr>mon_start = 20, mon_end = 75,
        mon_update_period = FloatPeriod (Finite (1 / 4)),
        mon_iterable = [10, 11, 12, 13, 14, 15, 16, 17 :: int], mon_prefix = None\<rparr>
   \<and> get_period \<lparr>mon_start = 20, mon_end = 75,
        mon_update_period = FloatPeriod (Finite (1 / 4)),
        mon_iterable = [10, 11, 12, 13, 14, 15, 16, 17 :: int], mon_prefix = None\<rparr> 8
      = Inr (Some 2)
   \<and> loop_body \<lparr>mon_start = 20, mon_end = 75,
        mon_update_period = FloatPeriod (Finite (1 / 4)),
        mon_iterable = [10, 11, 12, 13, 14, 15, 16, 17 :: int], mon_prefix = None\<rparr> 8 3
      = Inr []"
proof -
  let ?m = "\<lparr>mon_start = 20, mon_end = 75,
        mon_update_period = FloatPeriod (Finite (1 / 4)),
        mon_iterable = [10, 11, 12, 13, 14, 15, 16, 17 :: int], mon_prefix = None\<rparr>"
  have p: "mon_update_period ?m = FloatPeriod (Finite (1 / 4))" by simp
  have f: "0 < (1 / 4 :: rat)" "(1 / 4 :: rat) \<le> 1" by simp_all
  have r: "in_float_range ?m" by (simp add: in_float_range_def monitor_len_def)
  have n: "monitor_len ?m = 8" by (simp add: monitor_len_def)
  have i: "3 < monitor_len ?m" by (simp add: n)
  have r8: "rnd 8 = 8" using rnd_of_int[of 8] by simp
  have fp: "float_period (1 / 4) 8 = 2"
    by (simp add: float_period_def r8 rnd_small_numerals trunc_def)
  from float_period_reports[OF p f r i] f r show ?thesis
    unfolding n by (simp add: fp)
qed

text \<open>
  The claim C3 as stated, with the product in exact arithmetic, fails.  The float
  written \<open>0.6\<close> is \<open>5404319552844595 / 2^53\<close>, below \<open>3/5\<close>: five times it is below
  3 and its floor is 2, but the product rounds to \<open>3.0\<close> and the code takes the period
  3, so that it reports at the indices 0 and 3 and not at 0, 2 and 4.  Read with the
  decimal fraction instead, the formula fails as well: the float written \<open>0.29\<close> is
  below \<open>29/100\<close>, a hundred times it rounds to \<open>28.999999999999996\<close> and the code
  takes the period 28, where \<open>floor(0.29 * 100)\<close> is 29.
\<close>

theorem float_period_not_exact:
  "fl (3 / 5) = Finite (5404319552844595 / 9007199254740992)
   \<and> get_period \<lparr>mon_start = 0, mon_end = 100,
        mon_update_period = FloatPeriod (Finite (5404319552844595 / 9007199254740992)),
        mon_iterable = [10, 11, 12, 13, 14 :: int], mon_prefix = Some ''p''\<rparr> 5 = Inr (Some 3)
   \<and> monitor_iter \<lparr>mon_start = 0, mon_end = 100,
        mon_update_period = FloatPeriod (Finite (5404319552844595 / 9007199254740992)),
        mon_iterable = [10, 11, 12, 13, 14 :: int], mon_prefix = Some ''p''\<rparr>
      = ([Update 0 ''p (1/5).'', Yield 10, Yield 11, Yield 12,
          Update 60 ''p (4/5).'', Yield 13, Yield 14], None)
   \<and> exact_period (5404319552844595 / 9007199254740992) 5 = 2
   \<and> fl (29 / 100) = Finite (5224175567749775 / 18014398509481984)
   \<and> get_period \<lparr>mon_start = 0, mon_end = 100,
        mon_update_period = FloatPeriod (Finite (5224175567749775 / 18014398509481984)),
        mon_iterable = replicate 100 (0 :: int), mon_prefix = Some ''p''\<rparr> 100 = Inr (Some 28)
   \<and> exact_period (29 / 100) 100 = 29"
proof -
  let ?F = "5404319552844595 / 9007199254740992 :: rat"
  let ?G = "5224175567749775 / 18014398509481984 :: rat"
  let ?m = "\<lparr>mon_start = 0, mon_end = 100, mon_update_period = FloatPeriod (Finite ?F),
        mon_iterable = [10, 11, 12, 13, 14 :: int], mon_prefix = Some ''p''\<rparr>"
  let ?k = "\<lparr>mon_start = 0, mon_end = 100, mon_update_period = FloatPeriod (Finite ?G),
        mon_iterable = replicate 100 (0 :: int), mon_prefix = Some ''p''\<rparr>"
  have v: "valid_period (mon_update_period ?m)" by (simp add: valid_period_def)
  have r: "in_float_range ?m" by (simp add: in_float_range_def monitor_len_def)
  have n: "monitor_len ?m = 5" by (simp add: monitor_len_def)
  have gm: "get_period ?m 5 = Inr (Some 3)"
    using get_period_float_ok[of ?m ?F 5] by (simp add: float_period_3_5_5)
  have gk: "get_period ?k 100 = Inr (Some 28)"
    using get_period_float_ok[of ?k ?G 100] by (simp add: float_period_29_100_100)
  have re: "report_events ?m i =
      (if int i mod 3 = 0
       then [Update (float_progress 0 100 i 5) (format_status (Some ''p'') (i + 1) 5)]
       else [])" for i
    by (simp add: report_events_def reports_at_def effective_period_def n float_period_3_5_5)
  have "expected_trace ?m =
      [Update 0 ''p (1/5).'', Yield 10, Yield 11, Yield 12,
       Update 60 ''p (4/5).'', Yield 13, Yield 14]"
    unfolding expected_trace_def n upt_5
    by (simp add: re float_progress_0_100_0_5 float_progress_0_100_3_5 format_status_def
        str_prefix_def str_nat_digits str_nat_Suc_0)
  with monitor_iter_ok[OF v r] have tr: "monitor_iter ?m =
      ([Update 0 ''p (1/5).'', Yield 10, Yield 11, Yield 12,
        Update 60 ''p (4/5).'', Yield 13, Yield 14], None)" by simp
  show ?thesis
    using fl_3_5 gm tr exact_period_3_5_5 fl_29_100 gk exact_period_29_100_100 by blast
qed

text \<open>
  C8, as amended: for integer bounds \<open>0 \<le> start < end\<close> and a source of length \<open>N\<close>
  with \<open>end * N \<le> 2^52\<close>, every progress value reported during the iteration lies
  in \<open>[start, end)\<close>, and the reported values are non-decreasing in the order of the
  reports.  (So the final reported value is below \<open>end\<close>.)
\<close>

theorem progress_within_bounds:
  assumes "valid_period (mon_update_period m)" and "0 \<le> mon_start m"
    and "mon_start m < mon_end m" and "mon_end m * int (monitor_len m) \<le> 2 ^ 52"
  shows "(\<forall>p \<in> set (map fst (updates (fst (monitor_iter m)))).
            mon_start m \<le> p \<and> p < mon_end m)
     \<and> sorted (map fst (updates (fst (monitor_iter m))))"
proof (cases "monitor_len m = 0")
  case True
  then have "mon_iterable m = []" by (simp add: monitor_len_def)
  then have "monitor_iter m = ([], None)" by (simp add: monitor_iter_def)
  then show ?thesis by simp
next
  case False
  then have n1: "1 \<le> int (monitor_len m)" by simp
  have e1: "1 \<le> mon_end m" using assms(2,3) by simp
  have "mon_end m * 1 \<le> mon_end m * int (monitor_len m)"
    using n1 e1 by (intro mult_left_mono) simp_all
  then have e_le: "mon_end m \<le> 2 ^ 52" using assms(4) by simp
  have "1 * int (monitor_len m) \<le> mon_end m * int (monitor_len m)"
    using n1 e1 by (intro mult_right_mono) simp_all
  then have "int (monitor_len m) \<le> 2 ^ 52" using assms(4) by simp
  then have n_le: "monitor_len m \<le> 2 ^ 52" by (simp flip: of_nat_le_iff)
  have "(2::nat) ^ 52 < 2 ^ 63" by simp
  then have n63: "monitor_len m < 2 ^ 63" using n_le by linarith
  have "(2::int) ^ 52 \<le> 2 ^ 1021" by (intro power_increasing) simp_all
  then have "\<bar>mon_start m\<bar> \<le> 2 ^ 1021" "\<bar>mon_end m\<bar> \<le> 2 ^ 1021"
    using assms(2,3) e_le by linarith+
  then have r: "in_float_range m" using n63 by (simp add: in_float_range_def)
  have tr: "fst (monitor_iter m) = expected_trace m"
    using monitor_iter_ok[OF assms(1) r] by simp
  have "mon_start m \<le> float_progress (mon_start m) (mon_end m) i (monitor_len m)
      \<and> float_progress (mon_start m) (mon_end m) i (monitor_len m) < mon_end m"
    if "i < monitor_len m" for i
    using assms(2,3) that assms(4) by (rule float_progress_bounds)
  then have "\<forall>p \<in> set (map fst (updates (expected_trace m))).
      mon_start m \<le> p \<and> p < mon_end m"
    by (auto simp: updates_expected_trace)
  moreover have "sorted (map fst (updates (expected_trace m)))"
    unfolding updates_expected_trace using assms(3) by (intro sorted_progress) simp
  ultimately show ?thesis by (simp only: tr)
qed

theorem progress_within_bounds_witness:
  "valid_period NoPeriod \<and> (0::int) \<le> 20 \<and> (20::int) < 75
   \<and> (75::int) * int (monitor_len \<lparr>mon_start = 20, mon_end = 75, mon_update_period = NoPeriod,
        mon_iterable = [''a'', ''b''], mon_prefix = None\<rparr>) \<le> 2 ^ 52
   \<and> list_all (\<lambda>p. 20 \<le> p \<and> p < 75)
        (map fst (updates (fst (monitor_iter \<lparr>mon_start = 20, mon_end = 75,
        mon_update_period = NoPeriod, mon_iterable = [''a'', ''b''], mon_prefix = None\<rparr>))))
   \<and> sorted (map fst (updates (fst (monitor_iter \<lparr>mon_start = 20, mon_end = 75,
        mon_update_period = NoPeriod, mon_iterable = [''a'', ''b''], mon_prefix = None\<rparr>))))"
proof -
  let ?m = "\<lparr>mon_start = 20, mon_end = 75, mon_update_period = NoPeriod,
        mon_iterable = [''a'', ''b''], mon_prefix = None\<rparr>"
  have v: "valid_period (mon_update_period ?m)" by (simp add: valid_period_def)
  have a: "0 \<le> mon_start ?m" "mon_start ?m < mon_end ?m" by simp_all
  have b: "mon_end ?m * int (monitor_len ?m) \<le> 2 ^ 52" by (simp add: monitor_len_def)
  from progress_within_bounds[OF v a b] v b show ?thesis by (simp add: list_all_iff)
qed

text \<open>
  The claim C8 as stated, for all integer bounds, fails where the bounds exceed the
  precision of binary64: with \<open>start = 2^53\<close> and \<open>end = 2^53 + 2\<close> over 10 elements,
  the report at the last index carries \<open>int(2^53 + 2 * (9 / 10.0))\<close>, and the sum
  \<open>2^53 + 1.8\<close> rounds to \<open>2^53 + 2\<close>: the value reported is \<open>end\<close> itself.
\<close>

theorem progress_reaches_end:
  "monitor_iter \<lparr>mon_start = 9007199254740992, mon_end = 9007199254740994,
      mon_update_period = IntPeriod 9,
      mon_iterable = [10, 11, 12, 13, 14, 15, 16, 17, 18, 19 :: int], mon_prefix = Some ''p''\<rparr>
   = ([Update 9007199254740992 ''p (1/10).'', Yield 10, Yield 11, Yield 12, Yield 13, Yield 14,
       Yield 15, Yield 16, Yield 17, Yield 18,
       Update 9007199254740994 ''p (10/10).'', Yield 19], None)"
proof -
  let ?m = "\<lparr>mon_start = 9007199254740992, mon_end = 9007199254740994,
      mon_update_period = IntPeriod 9,
      mon_iterable = [10, 11, 12, 13, 14, 15, 16, 17, 18, 19 :: int], mon_prefix = Some ''p''\<rparr>"
  have v: "valid_period (mon_update_period ?m)" by (simp add: valid_period_def)
  have r: "in_float_range ?m" by (simp add: in_float_range_def monitor_len_def)
  have n: "monitor_len ?m = 10" by (simp add: monitor_len_def)
  have re: "report_events ?m i =
      (if int i mod 9 = 0
       then [Update (float_progress 9007199254740992 9007199254740994 i 10)
               (format_status (Some ''p'') (i + 1) 10)]
       else [])" for i
    by (simp add: report_events_def reports_at_def effective_period_def n)
  have "expected_trace ?m =
      [Update 9007199254740992 ''p (1/10).'', Yield 10, Yield 11, Yield 12, Yield 13, Yield 14,
       Yield 15, Yield 16, Yield 17, Yield 18,
       Update 9007199254740994 ''p (10/10).'', Yield 19]"
    unfolding expected_trace_def n upt_10
    by (simp add: re float_progress_big_0 float_progress_big_9 format_status_def
        str_prefix_def str_nat_digits str_nat_Suc_0)
  with monitor_iter_ok[OF v r] show ?thesis by simp
qed

subsection \<open>Binary32 rounding\<close>

lemma rhe_abs_le: "\<bar>of_int (round_half_even z) :: rat\<bar> \<le> 2 * \<bar>z\<bar>"
proof -
  have pos: "\<bar>of_int (round_half_even y) :: rat\<bar> \<le> 2 * \<bar>y\<bar>" if "0 \<le> y" for y
  proof (cases "y < 1 / 2")
    case True
    have "round_half_even y = 0" by (rule rhe_eq_I) (use that True in simp_all)
    then show ?thesis by simp
  next
    case False
    have "0 \<le> round_half_even y"
      using rhe_mono[OF that] rhe_of_int[of 0] by simp
    then have "\<bar>of_int (round_half_even y) :: rat\<bar> = of_int (round_half_even y)" by simp
    also have "\<dots> \<le> y + 1 / 2" by (rule rhe_bounds(2))
    also have "\<dots> \<le> 2 * \<bar>y\<bar>" using False that by simp
    finally show ?thesis .
  qed
  show ?thesis
  proof (cases "0 \<le> z")
    case True
    then show ?thesis by (rule pos)
  next
    case False
    then have "\<bar>of_int (round_half_even (- z)) :: rat\<bar> \<le> 2 * \<bar>- z\<bar>" by (intro pos) simp
    then show ?thesis by (simp add: rhe_neg)
  qed
qed

lemma rnd32_abs_le: "\<bar>rnd32 x\<bar> \<le> 2 * \<bar>x\<bar>"
proof (cases "x = 0")
  case True
  then show ?thesis by (simp add: rnd32_def)
next
  case False
  let ?q = "2 powi quantum32 x :: rat"
  have q: "0 < ?q" by simp
  have "\<bar>rnd32 x\<bar> = \<bar>of_int (round_half_even (x / ?q)) :: rat\<bar> * ?q"
    using False q by (simp add: rnd32_def abs_mult)
  also have "\<dots> \<le> (2 * \<bar>x / ?q\<bar>) * ?q"
    using rhe_abs_le[of "x / ?q"] q by (intro mult_right_mono) simp_all
  also have "\<dots> = 2 * \<bar>x\<bar>" using q by (simp add: abs_divide)
  finally show ?thesis .
qed

lemma fl32_Finite:
  assumes "\<bar>x\<bar> \<le> 2 ^ 126"
  shows "fl32 x = Finite (rnd32 x)"
proof -
  have "\<bar>rnd32 x\<bar> \<le> 2 * \<bar>x\<bar>" by (rule rnd32_abs_le)
  also have "\<dots> \<le> 2 * 2 ^ 126" using assms by simp
  also have "\<dots> < (2::rat) ^ 128" by simp
  finally have "\<not> 2 ^ 128 \<le> rnd32 x" "\<not> rnd32 x \<le> - (2 ^ 128)" by linarith+
  then show ?thesis by (simp only: fl32_def Let_def if_False)
qed

lemma rnd32_eval:
  assumes "2 powi e \<le> \<bar>x\<bar>" "\<bar>x\<bar> < 2 powi (e + 1)"
    and "of_int k - 1 / 2 < x / 2 powi (max (e - 23) (- 149))"
    and "x / 2 powi (max (e - 23) (- 149)) < of_int k + 1 / 2"
    and "y = of_int k * 2 powi (max (e - 23) (- 149))"
  shows "rnd32 x = y"
proof -
  have e: "ilog2 x = e" using assms(1,2) by (rule ilog2_unique)
  have nz: "x \<noteq> 0" using assms(1) by (rule powi_le_abs_nz)
  have "round_half_even (x / 2 powi (max (e - 23) (- 149))) = k"
    using assms(3,4) by (rule rhe_eq_I)
  then show ?thesis using nz by (simp add: rnd32_def quantum32_def e assms(5))
qed

lemma rnd32_1_5: "rnd32 (1 / 5) = 13421773 / 67108864"
  by (rule rnd32_eval[where e = "- 3" and k = "13421773"]) simp_all

lemma rnd32_2_5: "rnd32 (2 / 5) = 13421773 / 33554432"
  by (rule rnd32_eval[where e = "- 2" and k = "13421773"]) simp_all

lemma rnd32_3_5: "rnd32 (3 / 5) = 5033165 / 8388608"
  by (rule rnd32_eval[where e = "- 1" and k = "10066330"]) simp_all

lemma rnd32_double_1_5: "rnd32 (3602879701896397 / 18014398509481984) = 13421773 / 67108864"
  by (rule rnd32_eval[where e = "- 3" and k = "13421773"]) simp_all

lemma rnd32_float_1_5: "rnd32 (13421773 / 67108864) = 13421773 / 67108864"
  by (rule rnd32_eval[where e = "- 3" and k = "13421773"]) simp_all

lemma rnd_1_5: "rnd (1 / 5) = 3602879701896397 / 18014398509481984"
  by (rule rnd_eval[where e = "- 3" and k = "7205759403792794"]) simp_all

section \<open>Properties of \<open>predict_img\<close>\<close>

lemma shape_np_map: "shape (np_map f a) = shape a"
  by (simp add: np_map_def)

lemma shape_normalize: "shape (normalize L a) = shape a"
  by (simp add: normalize_def shape_np_map)

lemma mask_np_shape:
  assumes c: "lib_contract L" and n: "net_contract net1" and m: "training net1 = False"
    and sup: "cv2_supported L full_img"
    and sh: "shape full_img = [H, W, C]" and C: "C \<noteq> 1"
    and sc: "0 < scaled_dim L H s" "0 < scaled_dim L W s"
  shows "\<exists>a. mask_np L net1 full_img s = Inr a \<and> shape a = filter (\<lambda>d. d \<noteq> 1) [1, H, W]"
proof -
  let ?h = "scaled_dim L H s" and ?w = "scaled_dim L W s"
  from c sup sh sc C obtain r where r: "cv2_resize L full_img s = Inr r" "shape r = [?h, ?w, C]"
    unfolding lib_contract_def by (metis (full_types))
  let ?n = "normalize L (np_map (to_float32 L) r)"
  have "shape ?n = [?h, ?w, C]" by (simp add: shape_normalize shape_np_map r(2))
  then obtain t where t: "np_transpose_201 ?n = Inr t" "shape t = [C, ?h, ?w]"
    by (simp add: np_transpose_201_def)
  have "shape (unsqueeze0 t) = [1, C, ?h, ?w]" by (simp add: unsqueeze0_def t(2))
  with n obtain y where y: "forward net1 False (unsqueeze0 t) = Inr y" "shape y = [1, 1, ?h, ?w]"
    unfolding net_contract_def by metis
  have "shape (squeeze0 y) = [1, ?h, ?w]" by (simp add: squeeze0_def y(2))
  with c obtain q where q: "pil_resize L (H, W) (squeeze0 y) = Inr q" "shape q = [1, H, W]"
    unfolding lib_contract_def by metis
  have "mask_np L net1 full_img s = Inr (squeeze_all q)"
    by (simp add: mask_np_def sh r(1) t(1) m y(1) q(1))
  moreover have "shape (squeeze_all q) = filter (\<lambda>d. d \<noteq> 1) [1, H, W]"
    by (simp add: squeeze_all_def q(2))
  ultimately show ?thesis by blast
qed

lemma toy_lib_contract: "lib_contract toy_libs"
  unfolding lib_contract_def
  by (auto simp: toy_libs_def toy_resize_def toy_pil_def)

lemma toy_net_contract: "net_contract (toy_net\<lparr>training := b\<rparr>)"
  unfolding net_contract_def
  by (auto simp: toy_net_def)

lemma toy_scaled_one: "toy_scaled n (Finite 1) = n"
  using rhe_of_int[of "int n"] by (simp add: toy_scaled_def)

text \<open>
  C4, as amended: for every image of native shape \<open>(H, W, C)\<close> that OpenCV accepts,
  with \<open>H, W \<ge> 2\<close> and \<open>C \<ge> 2\<close>, and every scale factor for which both scaled
  dimensions are nonzero, \<open>predict_img\<close> returns a mask of shape exactly \<open>(H, W)\<close>,
  whatever the scaled dimensions are (the libraries and the network keeping to their
  contracts).
\<close>

theorem mask_shape_native:
  assumes "lib_contract L" and "net_contract (net0\<lparr>training := False\<rparr>)"
    and "cv2_supported L full_img" and "shape full_img = [H, W, C]"
    and "2 \<le> H" and "2 \<le> W" and "2 \<le> C"
    and "0 < scaled_dim L H s" and "0 < scaled_dim L W s"
  shows "\<exists>mask. snd (predict_img L net0 full_img s t) = Inr mask \<and> shape mask = [H, W]"
proof -
  have "\<exists>a. mask_np L (net0\<lparr>training := False\<rparr>) full_img s = Inr a
      \<and> shape a = filter (\<lambda>d. d \<noteq> 1) [1, H, W]"
  proof (rule mask_np_shape)
    show "C \<noteq> 1" using assms(7) by simp
  qed (use assms in simp_all)
  then obtain a where a: "mask_np L (net0\<lparr>training := False\<rparr>) full_img s = Inr a"
    "shape a = [H, W]" using assms(5,6) by auto
  then show ?thesis
    by (simp add: predict_img_def Let_def np_greater_def shape_np_map)
qed

theorem mask_shape_native_witness:
  "lib_contract toy_libs \<and> net_contract (toy_net\<lparr>training := False\<rparr>)
   \<and> cv2_supported toy_libs \<lparr>shape = [4, 6, 3], elems = replicate 72 0\<rparr>
   \<and> 0 < scaled_dim toy_libs 4 (Finite (1 / 2)) \<and> 0 < scaled_dim toy_libs 6 (Finite (1 / 2))
   \<and> (\<exists>mask. snd (predict_img toy_libs toy_net \<lparr>shape = [4, 6, 3], elems = replicate 72 0\<rparr>
          (Finite (1 / 2)) (Finite (1 / 2))) = Inr mask \<and> shape mask = [4, 6])"
proof -
  let ?img = "\<lparr>shape = [4, 6, 3], elems = replicate 72 (0::rat)\<rparr>"
  have s: "cv2_supported toy_libs ?img" by (simp add: toy_libs_def)
  have sh: "shape ?img = [4, 6, 3]" by simp
  have d: "0 < scaled_dim toy_libs 4 (Finite (1 / 2))" "0 < scaled_dim toy_libs 6 (Finite (1 / 2))"
    by (simp_all add: toy_libs_def toy_scaled_def round_half_even_def)
  have b: "(2::nat) \<le> 4" "(2::nat) \<le> 6" "(2::nat) \<le> 3" by simp_all
  from mask_shape_native[OF toy_lib_contract toy_net_contract s sh b d, where t = "Finite (1 / 2)"]
    toy_lib_contract toy_net_contract s d
  show ?thesis by simp
qed

text \<open>
  The claim C4 as stated, for all \<open>H, W \<ge> 1\<close> and every \<open>C\<close>, fails.  For an image
  of shape \<open>(1, 5, 3)\<close> and the scale factor 1 the transform returns a tensor of shape
  \<open>(1, 1, 5)\<close>, and \<open>squeeze()\<close>, which removes every dimension of size 1, leaves the
  shape \<open>(5)\<close>, not \<open>(1, 5)\<close>.  For an image of shape \<open>(4, 5, 1)\<close> the resized array
  has two dimensions and \<open>np.transpose\<close> raises \<open>ValueError\<close>: no mask is returned.
\<close>

theorem mask_shape_squeezed:
  "lib_contract toy_libs \<and> net_contract (toy_net\<lparr>training := False\<rparr>)
   \<and> scaled_dim toy_libs 1 (Finite 1) = 1 \<and> scaled_dim toy_libs 5 (Finite 1) = 5
   \<and> map_sum id shape (snd (predict_img toy_libs toy_net
        \<lparr>shape = [1, 5, 3], elems = replicate 15 0\<rparr> (Finite 1) (Finite (1 / 2)))) = Inr [5]
   \<and> scaled_dim toy_libs 4 (Finite 1) = 4
   \<and> snd (predict_img toy_libs toy_net
        \<lparr>shape = [4, 5, 1], elems = replicate 20 0\<rparr> (Finite 1) (Finite (1 / 2))) = Inl ValueError"
proof -
  have d: "scaled_dim toy_libs n (Finite 1) = n" for n
    by (simp add: toy_libs_def toy_scaled_one)
  have 1: "map_sum id shape (snd (predict_img toy_libs toy_net
        \<lparr>shape = [1, 5, 3], elems = replicate 15 0\<rparr> (Finite 1) (Finite (1 / 2)))) = Inr [5]"
    by (simp add: predict_img_def mask_np_def toy_libs_def toy_resize_def toy_scaled_one
        normalize_def np_map_def np_transpose_201_def toy_net_def unsqueeze0_def squeeze0_def
        toy_pil_def squeeze_all_def np_greater_def)
  have 2: "snd (predict_img toy_libs toy_net
        \<lparr>shape = [4, 5, 1], elems = replicate 20 0\<rparr> (Finite 1) (Finite (1 / 2))) = Inl ValueError"
    by (simp add: predict_img_def mask_np_def toy_libs_def toy_resize_def toy_scaled_one
        normalize_def np_map_def np_transpose_201_def)
  show ?thesis using toy_lib_contract toy_net_contract d 1 2 by simp
qed

lemma toy_mask_np:
  "mask_np toy_libs (toy_net\<lparr>training := False\<rparr>) \<lparr>shape = [2, 2, 3], elems = replicate 12 0\<rparr>
     (Finite 1)
   = Inr \<lparr>shape = [2, 2],
          elems = [0, 13421773 / 67108864, 13421773 / 33554432, 5033165 / 8388608]\<rparr>"
proof -
  have u: "[0..<4] = [0, 1, 2, 3]" by code_simp
  have z: "rnd32 0 = 0" by (simp add: rnd32_def)
  show ?thesis
    by (simp add: mask_np_def toy_libs_def toy_resize_def toy_scaled_one
        normalize_def np_map_def np_transpose_201_def toy_net_def unsqueeze0_def squeeze0_def
        toy_pil_def squeeze_all_def u z rnd32_1_5 rnd32_2_5 rnd32_3_5)
qed

lemma toy_elem_value: "elem_value toy_libs = Finite"
  by (simp add: toy_libs_def)

lemma toy_weak_scalars: "weak_scalars toy_libs = False"
  by (simp add: toy_libs_def)

lemma toy_predict_float32:
  "snd (predict_img toy_libs toy_net \<lparr>shape = [2, 2, 3], elems = replicate 12 0\<rparr> (Finite 1)
          (Finite (13421773 / 67108864)))
     = Inr \<lparr>shape = [2, 2], elems = [False, False, True, True]\<rparr>"
  by (simp add: predict_img_def Let_def toy_mask_np np_greater_def np_map_def
      scalar_operand_def fits_float32_def toy_elem_value toy_weak_scalars fl32_def rnd32_float_1_5 float_gt_def)

lemma toy_predict_double:
  "snd (predict_img toy_libs toy_net \<lparr>shape = [2, 2, 3], elems = replicate 12 0\<rparr> (Finite 1)
          (Finite (3602879701896397 / 18014398509481984)))
     = Inr \<lparr>shape = [2, 2], elems = [False, False, True, True]\<rparr>"
  by (simp add: predict_img_def Let_def toy_mask_np np_greater_def np_map_def
      scalar_operand_def fits_float32_def toy_elem_value toy_weak_scalars fl32_def rnd32_double_1_5 float_gt_def)

lemma float_gt_irrefl: "\<not> float_gt a a"
  by (cases a) (simp_all add: float_gt_def)

text \<open>
  C5, as amended: when \<open>predict_img\<close> returns a mask for a threshold \<open>t\<close> (of magnitude
  at most \<open>2^126\<close>; the mask having a dimension, or the rules of NumPy 2 being in
  force), the mask has the shape of the resized probability map \<open>mask_np\<close>, and each of
  its pixels is \<open>True\<close> exactly when the pixel of \<open>mask_np\<close> is strictly greater than
  the threshold converted to \<open>float32\<close>, the type of the array; a pixel equal to the
  converted threshold is \<open>False\<close>.  For a threshold that is itself a \<open>float32\<close> value
  this is the comparison with \<open>t\<close>.  The comparison is made on the values of
  \<open>mask_np\<close> as they are, of whatever magnitude.
\<close>

theorem threshold_in_float32:
  assumes "snd (predict_img L net0 full_img s (Finite t)) = Inr result"
    and "\<bar>t\<bar> \<le> 2 ^ 126" and "weak_scalars L \<or> shape result \<noteq> []"
  shows "\<exists>a. mask_np L (net0\<lparr>training := False\<rparr>) full_img s = Inr a
     \<and> shape result = shape a \<and> length (elems result) = length (elems a)
     \<and> (\<forall>j < length (elems a).
           elems result ! j = float_gt (elem_value L (elems a ! j)) (Finite (rnd32 t)))
     \<and> (\<forall>j < length (elems a).
           elem_value L (elems a ! j) = Finite (rnd32 t) \<longrightarrow> \<not> elems result ! j)
     \<and> (rnd32 t = t \<longrightarrow> (\<forall>j < length (elems a).
           elems result ! j = float_gt (elem_value L (elems a ! j)) (Finite t)))"
proof -
  from assms(1) obtain a where a: "mask_np L (net0\<lparr>training := False\<rparr>) full_img s = Inr a"
    and m: "result = np_greater L a (Finite t)"
    by (auto simp: predict_img_def Let_def split: sum.splits)
  have sh: "shape result = shape a" by (simp add: m np_greater_def np_map_def)
  have so: "scalar_operand (weak_scalars L) (shape a) (Finite t) = Finite (rnd32 t)"
  proof -
    have "fits_float32 t" using assms(2) by (simp add: fits_float32_def)
    then show ?thesis
      using assms(3) fl32_Finite[OF assms(2)] by (auto simp: scalar_operand_def sh)
  qed
  have len: "length (elems result) = length (elems a)"
    by (simp add: m np_greater_def np_map_def)
  have px: "\<forall>j < length (elems a).
      elems result ! j = float_gt (elem_value L (elems a ! j)) (Finite (rnd32 t))"
    by (simp add: m np_greater_def np_map_def so)
  then have eq: "\<forall>j < length (elems a).
      elem_value L (elems a ! j) = Finite (rnd32 t) \<longrightarrow> \<not> elems result ! j"
    by (simp add: float_gt_irrefl)
  show ?thesis using a sh len px eq by auto
qed

theorem threshold_in_float32_witness:
  "snd (predict_img toy_libs toy_net \<lparr>shape = [2, 2, 3], elems = replicate 12 0\<rparr> (Finite 1)
          (Finite (13421773 / 67108864)))
     = Inr \<lparr>shape = [2, 2], elems = [False, False, True, True]\<rparr>
   \<and> \<bar>13421773 / 67108864 :: rat\<bar> \<le> 2 ^ 126
   \<and> shape \<lparr>shape = [2, 2], elems = [False, False, True, True]\<rparr> \<noteq> []
   \<and> rnd32 (13421773 / 67108864) = 13421773 / 67108864
   \<and> mask_np toy_libs (toy_net\<lparr>training := False\<rparr>) \<lparr>shape = [2, 2, 3], elems = replicate 12 0\<rparr>
       (Finite 1)
     = Inr \<lparr>shape = [2, 2],
            elems = [0, 13421773 / 67108864, 13421773 / 33554432, 5033165 / 8388608]\<rparr>
   \<and> (\<exists>a. mask_np toy_libs (toy_net\<lparr>training := False\<rparr>)
          \<lparr>shape = [2, 2, 3], elems = replicate 12 0\<rparr> (Finite 1) = Inr a
        \<and> elem_value toy_libs (elems a ! 1) = Finite (rnd32 (13421773 / 67108864))
        \<and> \<not> [False, False, True, True] ! 1
        \<and> [False, False, True, True] ! 2
            = float_gt (elem_value toy_libs (elems a ! 2)) (Finite (rnd32 (13421773 / 67108864))))"
proof -
  let ?r = "\<lparr>shape = [2, 2], elems = [False, False, True, True]\<rparr>"
  have b: "\<bar>13421773 / 67108864 :: rat\<bar> \<le> 2 ^ 126" by simp
  have d: "weak_scalars toy_libs \<or> shape ?r \<noteq> []" by simp
  from threshold_in_float32[OF toy_predict_float32 b d] obtain a where
    a: "mask_np toy_libs (toy_net\<lparr>training := False\<rparr>)
          \<lparr>shape = [2, 2, 3], elems = replicate 12 0\<rparr> (Finite 1) = Inr a"
    and j: "\<forall>j < length (elems a). elems ?r ! j
        = float_gt (elem_value toy_libs (elems a ! j)) (Finite (rnd32 (13421773 / 67108864)))"
    by auto
  have e: "elems a = [0, 13421773 / 67108864, 13421773 / 33554432, 5033165 / 8388608]"
    using a toy_mask_np by auto
  have 1: "elem_value toy_libs (elems a ! 1) = Finite (rnd32 (13421773 / 67108864))"
    by (simp add: e toy_elem_value rnd32_float_1_5)
  have 2: "\<not> [False, False, True, True] ! 1" by simp
  have 3: "[False, False, True, True] ! 2
      = float_gt (elem_value toy_libs (elems a ! 2)) (Finite (rnd32 (13421773 / 67108864)))"
    by (simp add: e toy_elem_value rnd32_float_1_5 float_gt_def)
  show ?thesis using toy_predict_float32 b rnd32_float_1_5 toy_mask_np a 1 2 3 by auto
qed

text \<open>
  The claim C5 as stated, with the pixel compared with the threshold itself, fails.
  The byte 51 becomes the pixel \<open>float32(51 / 255) = 13421773 / 2^26\<close>, which is
  strictly greater than the threshold \<open>0.2\<close> (the Python float
  \<open>3602879701896397 / 2^54\<close>); yet the threshold is converted to \<open>float32\<close>, where it
  becomes that same number, and the pixel is classified background.
\<close>

theorem threshold_converted:
  "fl (1 / 5) = Finite (3602879701896397 / 18014398509481984)
   \<and> mask_np toy_libs (toy_net\<lparr>training := False\<rparr>) \<lparr>shape = [2, 2, 3], elems = replicate 12 0\<rparr>
       (Finite 1)
     = Inr \<lparr>shape = [2, 2],
            elems = [0, 13421773 / 67108864, 13421773 / 33554432, 5033165 / 8388608]\<rparr>
   \<and> (3602879701896397 / 18014398509481984 :: rat) < 13421773 / 67108864
   \<and> snd (predict_img toy_libs toy_net \<lparr>shape = [2, 2, 3], elems = replicate 12 0\<rparr> (Finite 1)
          (Finite (3602879701896397 / 18014398509481984)))
     = Inr \<lparr>shape = [2, 2], elems = [False, False, True, True]\<rparr>"
proof -
  have "fl (1 / 5) = Finite (3602879701896397 / 18014398509481984)"
    by (simp add: fl_def rnd_1_5)
  moreover have "(3602879701896397 / 18014398509481984 :: rat) < 13421773 / 67108864"
    by simp
  ultimately show ?thesis using toy_mask_np toy_predict_double by simp
qed

text \<open>
  C9: with the libraries and the forward function of the network being functions of
  their arguments, a second call of \<open>predict_img\<close> with the same arguments, on the
  network as the first call left it, returns the same result; the result does not
  depend on the mode the network was in, since \<open>net.eval()\<close> sets it first.
\<close>

theorem predict_deterministic:
  "snd (predict_img L (fst (predict_img L net0 full_img s t)) full_img s t)
     = snd (predict_img L net0 full_img s t)
   \<and> snd (predict_img L (net0\<lparr>training := b\<rparr>) full_img s t)
     = snd (predict_img L net0 full_img s t)
   \<and> fst (predict_img L net0 full_img s t) = net0\<lparr>training := False\<rparr>"
  by (simp add: predict_img_def Let_def)

text \<open>
  C10: for an image whose shape does not have exactly three entries (in particular
  fewer than three), \<open>predict_img\<close> raises \<open>ValueError\<close> at the unpacking of the shape
  and returns no mask; the network has been put in evaluation mode before.
\<close>

theorem unpack_fails:
  assumes "length (shape full_img) \<noteq> 3"
  shows "predict_img L net0 full_img s t = (net0\<lparr>training := False\<rparr>, Inl ValueError)"
proof -
  have "mask_np L (net0\<lparr>training := False\<rparr>) full_img s = Inl ValueError"
    using assms by (auto simp: mask_np_def split: list.splits)
  then show ?thesis by (simp add: predict_img_def Let_def)
qed

theorem unpack_fails_witness:
  "length (shape \<lparr>shape = [4, 6], elems = replicate 24 (0::rat)\<rparr>) \<noteq> 3
   \<and> predict_img toy_libs toy_net \<lparr>shape = [4, 6], elems = replicate 24 0\<rparr> (Finite (1 / 2))
       (Finite (1 / 2))
     = (toy_net\<lparr>training := False\<rparr>, Inl ValueError)"
proof -
  have l: "length (shape \<lparr>shape = [4, 6], elems = replicate 24 (0::rat)\<rparr>) \<noteq> 3" by simp
  from unpack_fails[OF l] l show ?thesis by blast
qed

end
